theory Spec2Isabelle
  imports Complex_Main
begin

section \<open>Strings and the Go library functions the program calls\<close>

text \<open>
  A Go \<^verbatim>\<open>string\<close> is a sequence of bytes; it is modelled as \<^typ>\<open>string\<close>, a list of
  8-bit characters. Text outside ASCII appears as its UTF-8 bytes.
\<close>

definition newline :: char where
  "newline = CHR 0x0A"

text \<open>\<^verbatim>\<open>strings.HasPrefix(s, p)\<close> and \<^verbatim>\<open>strings.HasSuffix(s, p)\<close>.\<close>

definition HasPrefix :: "string \<Rightarrow> string \<Rightarrow> bool" where
  "HasPrefix s p = (length p \<le> length s \<and> take (length p) s = p)"

definition HasSuffix :: "string \<Rightarrow> string \<Rightarrow> bool" where
  "HasSuffix s p = (length p \<le> length s \<and> drop (length s - length p) s = p)"

text \<open>
  \<^verbatim>\<open>strings.TrimSuffix(s, suffix)\<close>: if \<^verbatim>\<open>s\<close> ends with the suffix, \<^verbatim>\<open>s\<close> without it,
  else \<^verbatim>\<open>s\<close> unchanged. The suffix is removed once.
\<close>

definition TrimSuffix :: "string \<Rightarrow> string \<Rightarrow> string" where
  "TrimSuffix s suf =
     (if HasSuffix s suf then take (length s - length suf) s else s)"

text \<open>
  \<^verbatim>\<open>strings.Split(s, sep)\<close> for a separator of one byte (the program splits on
  \<^verbatim>\<open>"\n"\<close>): the pieces between the separators, one more than there are separators, so
  the empty string gives one empty piece.
\<close>

fun Split_from :: "string \<Rightarrow> string \<Rightarrow> char \<Rightarrow> string list" where
  "Split_from cur [] sep = [cur]"
| "Split_from cur (c # cs) sep =
     (if c = sep then cur # Split_from [] cs sep else Split_from (cur @ [c]) cs sep)"

definition Split :: "string \<Rightarrow> char \<Rightarrow> string list" where
  "Split s sep = Split_from [] s sep"

text \<open>
  \<^verbatim>\<open>strings.TrimSpace(s)\<close> removes all leading and trailing white space as Unicode
  defines it (\<^verbatim>\<open>unicode.IsSpace\<close>): the six ASCII characters tab, line feed, vertical tab,
  form feed, carriage return and space, and U+0085, U+00A0, U+1680, U+2000 to U+200A,
  U+2028, U+2029, U+202F, U+205F and U+3000, each recognised by its UTF-8 encoding. A byte
  that starts no valid encoding of such a rune stops the trimming. Trailing runes are
  decoded backwards, which finds a white-space rune exactly when its encoding is a suffix.
\<close>

definition space_encodings :: "string list" where
  "space_encodings =
     [[CHR 0x09], [CHR 0x0A], [CHR 0x0B], [CHR 0x0C], [CHR 0x0D], [CHR 0x20],
      [CHR 0xC2, CHR 0x85], [CHR 0xC2, CHR 0xA0],
      [CHR 0xE1, CHR 0x9A, CHR 0x80],
      [CHR 0xE2, CHR 0x80, CHR 0x80], [CHR 0xE2, CHR 0x80, CHR 0x81],
      [CHR 0xE2, CHR 0x80, CHR 0x82], [CHR 0xE2, CHR 0x80, CHR 0x83],
      [CHR 0xE2, CHR 0x80, CHR 0x84], [CHR 0xE2, CHR 0x80, CHR 0x85],
      [CHR 0xE2, CHR 0x80, CHR 0x86], [CHR 0xE2, CHR 0x80, CHR 0x87],
      [CHR 0xE2, CHR 0x80, CHR 0x88], [CHR 0xE2, CHR 0x80, CHR 0x89],
      [CHR 0xE2, CHR 0x80, CHR 0x8A],
      [CHR 0xE2, CHR 0x80, CHR 0xA8], [CHR 0xE2, CHR 0x80, CHR 0xA9],
      [CHR 0xE2, CHR 0x80, CHR 0xAF], [CHR 0xE2, CHR 0x81, CHR 0x9F],
      [CHR 0xE3, CHR 0x80, CHR 0x80]]"

definition leading_space :: "string \<Rightarrow> string option" where
  "leading_space s = find (HasPrefix s) space_encodings"

definition trailing_space :: "string \<Rightarrow> string option" where
  "trailing_space s = find (HasSuffix s) space_encodings"

lemma find_space_encodings:
  assumes "find P space_encodings = Some e"
  shows "e \<noteq> [] \<and> P e"
proof -
  from assms have "e \<in> set space_encodings" and "P e"
    by (auto simp: find_Some_iff)
  moreover have "\<forall>x \<in> set space_encodings. x \<noteq> []"
    by (simp add: space_encodings_def)
  ultimately show ?thesis by blast
qed

lemma leading_space_shorter:
  "leading_space s = Some e \<Longrightarrow> length (drop (length e) s) < length s"
  using find_space_encodings [of "HasPrefix s" e]
  by (cases s) (auto simp: leading_space_def HasPrefix_def)

lemma trailing_space_shorter:
  "trailing_space s = Some e \<Longrightarrow> length (take (length s - length e) s) < length s"
  using find_space_encodings [of "HasSuffix s" e]
  by (cases s) (auto simp: trailing_space_def HasSuffix_def)

function TrimLeftSpace :: "string \<Rightarrow> string" where
  "TrimLeftSpace s =
     (case leading_space s of
        None \<Rightarrow> s
      | Some e \<Rightarrow> TrimLeftSpace (drop (length e) s))"
  by pat_completeness auto
termination
  by (relation "measure length") (auto dest: leading_space_shorter)

function TrimRightSpace :: "string \<Rightarrow> string" where
  "TrimRightSpace s =
     (case trailing_space s of
        None \<Rightarrow> s
      | Some e \<Rightarrow> TrimRightSpace (take (length s - length e) s))"
  by pat_completeness auto
termination
  by (relation "measure length") (auto dest: trailing_space_shorter)

definition TrimSpace :: "string \<Rightarrow> string" where
  "TrimSpace s = TrimRightSpace (TrimLeftSpace s)"

declare TrimLeftSpace.simps [simp del] TrimRightSpace.simps [simp del]

subsection \<open>strconv.ParseInt and strconv.Atoi\<close>

text \<open>
  Both return a value and an error, and the program keeps the value and drops the error.
  The model returns the pair. Unsigned 64-bit arithmetic is \<^typ>\<open>int\<close> with the
  wrap-around written out.
\<close>

datatype NumError = ErrSyntax | ErrRange

definition maxUint64 :: int where
  "maxUint64 = 2 ^ 64 - 1"

definition wrap_uint64 :: "int \<Rightarrow> int" where
  "wrap_uint64 x = x mod 2 ^ 64"

text \<open>The signed 64-bit value of an integer: what an \<^verbatim>\<open>int64\<close> operation keeps.\<close>

definition wrap_int64 :: "int \<Rightarrow> int" where
  "wrap_int64 x = (x + 2 ^ 63) mod 2 ^ 64 - 2 ^ 63"

text \<open>
  The digit a byte stands for in \<^verbatim>\<open>ParseUint\<close>: \<^verbatim>\<open>'0'..'9'\<close> give 0 to 9, a letter
  gives 10 to 35 (either case), any other byte is a syntax error.
\<close>

definition digit_of :: "char \<Rightarrow> int option" where
  "digit_of c =
     (let b = (of_char c :: nat) in
      if 48 \<le> b \<and> b \<le> 57 then Some (int b - 48)
      else if 97 \<le> b \<and> b \<le> 122 then Some (int b - 97 + 10)
      else if 65 \<le> b \<and> b \<le> 90 then Some (int b - 65 + 10)
      else None)"

text \<open>
  The loop of \<^verbatim>\<open>ParseUint(s, 10, 64)\<close>. It returns at the first byte that is no
  decimal digit (value 0, syntax error) and at the first overflow (value
  \<^verbatim>\<open>maxUint64\<close>, range error), whichever comes first; bytes after that are not read.
\<close>

fun ParseUint_loop :: "int \<Rightarrow> string \<Rightarrow> int \<times> NumError option" where
  "ParseUint_loop n [] = (n, None)"
| "ParseUint_loop n (c # cs) =
     (case digit_of c of
        None \<Rightarrow> (0, Some ErrSyntax)
      | Some d \<Rightarrow>
          if d \<ge> 10 then (0, Some ErrSyntax)
          else if n \<ge> maxUint64 div 10 + 1 then (maxUint64, Some ErrRange)
          else
            let n10 = wrap_uint64 (n * 10);
                n1 = wrap_uint64 (n10 + d)
            in if n1 < n10 \<or> n1 > maxUint64 then (maxUint64, Some ErrRange)
               else ParseUint_loop n1 cs)"

definition ParseUint :: "string \<Rightarrow> int \<times> NumError option" where
  "ParseUint s = (if s = [] then (0, Some ErrSyntax) else ParseUint_loop 0 s)"

text \<open>
  \<^verbatim>\<open>ParseInt(s, 10, 64)\<close>: an optional sign, then \<^verbatim>\<open>ParseUint\<close>. A syntax error
  gives 0; a value out of range gives the nearest bound, \<open>2^63 - 1\<close> or \<open>- 2^63\<close>, with a
  range error.
\<close>

definition ParseInt :: "string \<Rightarrow> int \<times> NumError option" where
  "ParseInt s =
     (if s = [] then (0, Some ErrSyntax)
      else
        let neg = (hd s = CHR ''-'');
            s1 = (if hd s = CHR ''+'' \<or> hd s = CHR ''-'' then tl s else s);
            (un, err) = ParseUint s1
        in if err = Some ErrSyntax then (0, Some ErrSyntax)
           else if \<not> neg \<and> un \<ge> 2 ^ 63 then (2 ^ 63 - 1, Some ErrRange)
           else if neg \<and> un > 2 ^ 63 then (- (2 ^ 63), Some ErrRange)
           else (if neg then - un else un, None))"

text \<open>
  \<^verbatim>\<open>Atoi(s)\<close> is \<^verbatim>\<open>ParseInt(s, 10, 0)\<close> converted to \<^verbatim>\<open>int\<close>; \<^verbatim>\<open>int\<close> is taken to
  be 64 bits wide, as on every 64-bit platform.
\<close>

definition Atoi :: "string \<Rightarrow> int \<times> NumError option" where
  "Atoi s = ParseInt s"

section \<open>The parser\<close>

record DiskInfo =
  Filesystem :: string
  Size :: int
  Used :: int
  Available :: int
  UsePercent :: int
  MountPoint :: string

text \<open>
  \<^verbatim>\<open>splitDfLine\<close> splits on the regular expression \<^verbatim>\<open>\s+\<close>, whose \<^verbatim>\<open>\s\<close> is the
  class of tab, line feed, form feed, carriage return and space. \<^verbatim>\<open>Split(line, -1)\<close>
  returns the text between the maximal runs, with an empty first or last piece when the
  line starts or ends with a run, and one empty piece for the empty line.
\<close>

definition re_space :: "char \<Rightarrow> bool" where
  "re_space c =
     (c = CHR 0x09 \<or> c = CHR 0x0A \<or> c = CHR 0x0C \<or> c = CHR 0x0D \<or> c = CHR 0x20)"

function splitDfLine_from :: "string \<Rightarrow> string \<Rightarrow> string list" where
  "splitDfLine_from cur [] = [cur]"
| "splitDfLine_from cur (c # cs) =
     (if re_space c then cur # splitDfLine_from [] (dropWhile re_space cs)
      else splitDfLine_from (cur @ [c]) cs)"
  by pat_completeness auto
termination
  by (relation "measure (\<lambda>(cur, s). length s)")
     (auto simp: less_Suc_eq_le length_dropWhile_le)

definition splitDfLine :: "string \<Rightarrow> string list" where
  "splitDfLine line = splitDfLine_from [] line"

text \<open>
  The body of the loop of \<^verbatim>\<open>parseDfOutput\<close> for one line: \<open>None\<close> where the source
  says \<^verbatim>\<open>continue\<close>, the record it appends otherwise.
\<close>

definition parseLine :: "string \<Rightarrow> DiskInfo option" where
  "parseLine l =
     (let line = TrimSpace l in
      if line = [] then None
      else if \<not> HasPrefix line ''/'' \<and> \<not> HasPrefix line ''tmpfs''
              \<and> \<not> HasPrefix line ''devtmpfs'' then None
      else
        let fields = splitDfLine line in
        if length fields < 6 then None
        else
          let sz = fst (ParseInt (fields ! 1));
              used = fst (ParseInt (fields ! 2));
              avail = fst (ParseInt (fields ! 3));
              usePercentStr = TrimSuffix (fields ! 4) ''%'';
              usePercent = fst (Atoi usePercentStr)
          in Some \<lparr> Filesystem = fields ! 0,
                    Size = wrap_int64 (sz * 1024),
                    Used = wrap_int64 (used * 1024),
                    Available = wrap_int64 (avail * 1024),
                    UsePercent = usePercent,
                    MountPoint = fields ! 5 \<rparr>)"

text \<open>The loop over the lines, with the slice \<^verbatim>\<open>diskInfos\<close> it appends to.\<close>

fun parse_lines :: "string list \<Rightarrow> DiskInfo list \<Rightarrow> DiskInfo list" where
  "parse_lines [] diskInfos = diskInfos"
| "parse_lines (l # ls) diskInfos =
     (case parseLine l of
        None \<Rightarrow> parse_lines ls diskInfos
      | Some di \<Rightarrow> parse_lines ls (diskInfos @ [di]))"

text \<open>The loop starts at index 1: the first line, the header, is never read.\<close>

definition parseDfOutput :: "string \<Rightarrow> DiskInfo list" where
  "parseDfOutput output = parse_lines (drop 1 (Split output newline)) []"

section \<open>Formatting\<close>

subsection \<open>float64 arithmetic\<close>

text \<open>
  A finite \<^verbatim>\<open>float64\<close> is a pair \<open>(m, e)\<close> of integers that stands for the number
  \<open>m * 2 ^ e\<close>, with \<open>\<bar>m\<bar> \<le> 2 ^ 53\<close>. Every operation gives the exact result rounded to
  53 significant bits, ties to the even significand (IEEE 754 round-to-nearest-even).
  Infinities, NaN and subnormal numbers are not modelled: from \<^verbatim>\<open>int64\<close> operands
  the operations below never produce them.
\<close>

type_synonym float64 = "int \<times> int"

text \<open>The number of binary digits of a positive integer, 0 for the others.\<close>

function nbits :: "int \<Rightarrow> int" where
  "nbits n = (if n \<le> 0 then 0 else nbits (n div 2) + 1)"
  by pat_completeness auto
termination
  by (relation "measure nat") auto

declare nbits.simps [simp del]

text \<open>The integer nearest to \<open>n / d\<close> for \<open>0 \<le> n\<close> and \<open>0 < d\<close>, ties to even.\<close>

definition div_round_even :: "int \<Rightarrow> int \<Rightarrow> int" where
  "div_round_even n d =
     (let q = n div d; r = n mod d
      in if 2 * r > d \<or> (2 * r = d \<and> odd q) then q + 1 else q)"

text \<open>
  The \<^verbatim>\<open>float64\<close> nearest to \<open>(n / d) * 2 ^ e\<close>, for \<open>0 < d\<close>: the exponent \<open>s\<close> is
  chosen so that \<open>2 ^ 52 \<le> \<bar>n\<bar> / d / 2 ^ s < 2 ^ 53\<close>, and that quotient is rounded.
\<close>

definition float64_round :: "int \<Rightarrow> int \<Rightarrow> int \<Rightarrow> float64" where
  "float64_round n d e =
     (if n = 0 then (0, 0)
      else
        let a = \<bar>n\<bar>;
            s0 = nbits a - nbits d - 53;
            s = (if a * 2 ^ nat (- s0) \<ge> d * 2 ^ nat s0 * 2 ^ 53 then s0 + 1 else s0);
            q = div_round_even (a * 2 ^ nat (- s)) (d * 2 ^ nat s)
        in (sgn n * q, s + e))"

text \<open>The conversion \<^verbatim>\<open>float64(n)\<close> of an integer, also of an integer constant.\<close>

definition float64_of_int :: "int \<Rightarrow> float64" where
  "float64_of_int n = float64_round n 1 0"

text \<open>\<^verbatim>\<open>x / y\<close> for \<open>y\<close> other than zero, and \<^verbatim>\<open>x * y\<close>.\<close>

fun float64_div :: "float64 \<Rightarrow> float64 \<Rightarrow> float64" where
  "float64_div (m1, e1) (m2, e2) = float64_round (sgn m2 * m1) \<bar>m2\<bar> (e1 - e2)"

fun float64_mul :: "float64 \<Rightarrow> float64 \<Rightarrow> float64" where
  "float64_mul (m1, e1) (m2, e2) = float64_round (m1 * m2) 1 (e1 + e2)"

text \<open>The conversion \<^verbatim>\<open>int(x)\<close> drops the fraction: it rounds towards zero.\<close>

fun int_of_float64 :: "float64 \<Rightarrow> int" where
  "int_of_float64 (m, e) = sgn m * (\<bar>m\<bar> * 2 ^ nat e div 2 ^ nat (- e))"

subsection \<open>fmt.Sprintf\<close>

definition digit_char :: "int \<Rightarrow> char" where
  "digit_char d = ''0123456789'' ! nat d"

text \<open>The decimal digits of an integer that is not negative.\<close>

function show_digits :: "int \<Rightarrow> string" where
  "show_digits n =
     (if n < 10 then [digit_char n] else show_digits (n div 10) @ [digit_char (n mod 10)])"
  by pat_completeness auto
termination
  by (relation "measure nat") auto

declare show_digits.simps [simp del]

text \<open>The verb \<^verbatim>\<open>%d\<close>.\<close>

definition Sprintf_d :: "int \<Rightarrow> string" where
  "Sprintf_d n = (if n < 0 then ''-'' @ show_digits (- n) else show_digits n)"

text \<open>A number of hundredths that is not negative, printed with two decimals.\<close>

definition hundredths :: "int \<Rightarrow> string" where
  "hundredths h =
     show_digits (h div 100) @ ''.'' @ [digit_char (h mod 100 div 10), digit_char (h mod 10)]"

text \<open>
  The verb \<^verbatim>\<open>%.2f\<close>: the value rounded to hundredths, ties to even on the exact binary
  value, printed with two digits after the point.
\<close>

fun Sprintf_2f :: "float64 \<Rightarrow> string" where
  "Sprintf_2f (m, e) =
     (if m < 0 then ''-'' else [])
     @ hundredths (div_round_even (\<bar>m\<bar> * 100 * 2 ^ nat e) (2 ^ nat (- e)))"

subsection \<open>formatSize\<close>

definition KB :: int where "KB = 1024"
definition MB :: int where "MB = 1024 * KB"
definition GB :: int where "GB = 1024 * MB"
definition TB :: int where "TB = 1024 * GB"

definition formatSize :: "int \<Rightarrow> string" where
  "formatSize sz =
     (if sz \<ge> TB then
        Sprintf_2f (float64_div (float64_of_int sz) (float64_of_int TB)) @ '' TB''
      else if sz \<ge> GB then
        Sprintf_2f (float64_div (float64_of_int sz) (float64_of_int GB)) @ '' GB''
      else if sz \<ge> MB then
        Sprintf_2f (float64_div (float64_of_int sz) (float64_of_int MB)) @ '' MB''
      else if sz \<ge> KB then
        Sprintf_2f (float64_div (float64_of_int sz) (float64_of_int KB)) @ '' KB''
      else Sprintf_d sz @ '' B'')"

section \<open>The display\<close>

text \<open>The usage bar of \<^verbatim>\<open>View\<close>: the two counts it computes from the percentage.\<close>

definition barWidth :: int where
  "barWidth = 30"

definition usedChars :: "int \<Rightarrow> int" where
  "usedChars usePercent =
     int_of_float64
       (float64_mul (float64_div (float64_of_int usePercent) (float64_of_int 100))
          (float64_of_int barWidth))"

definition availChars :: "int \<Rightarrow> int" where
  "availChars usePercent = barWidth - usedChars usePercent"

text \<open>\<^verbatim>\<open>strings.Repeat(s, count)\<close> panics when the count is negative.\<close>

datatype panic = NegativeRepeatCount

definition Repeat :: "string \<Rightarrow> int \<Rightarrow> panic + string" where
  "Repeat s count =
     (if count < 0 then Inl NegativeRepeatCount else Inr (concat (replicate (nat count) s)))"

text \<open>The characters of the display that are not ASCII, as their UTF-8 bytes.\<close>

definition full_block :: string where
  "full_block = [CHR 0xE2, CHR 0x96, CHR 0x88]"

definition light_shade :: string where
  "light_shade = [CHR 0xE2, CHR 0x96, CHR 0x91]"

definition tee :: string where
  "tee = [CHR 0xE2, CHR 0x94, CHR 0x9C, CHR 0xE2, CHR 0x94, CHR 0x80]"

definition corner :: string where
  "corner = [CHR 0xE2, CHR 0x94, CHR 0x94, CHR 0xE2, CHR 0x94, CHR 0x80]"

text \<open>
  The six styles of \<^verbatim>\<open>View\<close> come from the terminal styling library; each is taken as
  the function its \<^verbatim>\<open>Render\<close> applies to a string.
\<close>

record Styles =
  fsStyle :: "string \<Rightarrow> string"
  sizeStyle :: "string \<Rightarrow> string"
  mountStyle :: "string \<Rightarrow> string"
  usedStyle :: "string \<Rightarrow> string"
  availStyle :: "string \<Rightarrow> string"
  percentStyle :: "string \<Rightarrow> string"

record Model =
  diskInfos :: "DiskInfo list"
  err :: "string option"

text \<open>The text of one block, from the record and its two rendered bars.\<close>

definition deviceInfo_text :: "Styles \<Rightarrow> DiskInfo \<Rightarrow> string \<Rightarrow> string \<Rightarrow> string" where
  "deviceInfo_text st di usedBar availBar =
     fsStyle st (Filesystem di) @ [newline]
     @ tee @ '' Size: '' @ sizeStyle st (formatSize (Size di)) @ [newline]
     @ tee @ '' Used: '' @ usedStyle st (formatSize (Used di)) @ [newline]
     @ tee @ '' Available: '' @ availStyle st (formatSize (Available di)) @ [newline]
     @ tee @ '' Usage: '' @ percentStyle st (Sprintf_d (UsePercent di) @ ''%'') @ [newline]
     @ tee @ '' Mounted on: '' @ mountStyle st (MountPoint di) @ [newline]
     @ corner @ '' ['' @ usedBar @ availBar @ '']'' @ [newline, newline]"

text \<open>The body of the loop of \<^verbatim>\<open>View\<close> for a record that passes its test.\<close>

definition deviceInfo :: "Styles \<Rightarrow> DiskInfo \<Rightarrow> panic + string" where
  "deviceInfo st di =
     (case Repeat full_block (usedChars (UsePercent di)) of
        Inl p \<Rightarrow> Inl p
      | Inr used_cells \<Rightarrow>
          (case Repeat light_shade (availChars (UsePercent di)) of
             Inl p \<Rightarrow> Inl p
           | Inr avail_cells \<Rightarrow>
               Inr (deviceInfo_text st di (usedStyle st used_cells) (availStyle st avail_cells))))"

text \<open>The loop of \<^verbatim>\<open>View\<close>, with the string builder \<^verbatim>\<open>sb\<close> it writes to.\<close>

fun View_loop :: "Styles \<Rightarrow> DiskInfo list \<Rightarrow> string \<Rightarrow> panic + string" where
  "View_loop st [] sb = Inr sb"
| "View_loop st (di # dis) sb =
     (if HasPrefix (Filesystem di) ''/dev'' \<or> HasPrefix (Filesystem di) ''/'' then
        (case deviceInfo st di of
           Inl p \<Rightarrow> Inl p
         | Inr block \<Rightarrow> View_loop st dis (sb @ block))
      else View_loop st dis sb)"

definition View :: "Styles \<Rightarrow> Model \<Rightarrow> panic + string" where
  "View st m =
     (case err m of
        Some e \<Rightarrow> Inr (''Error: '' @ e)
      | None \<Rightarrow>
          if diskInfos m = [] then Inr ''Loading disk information...''
          else View_loop st (diskInfos m) [])"

text \<open>Styles that leave the text as it is.\<close>

definition plain :: Styles where
  "plain = \<lparr> fsStyle = (\<lambda>s. s), sizeStyle = (\<lambda>s. s), mountStyle = (\<lambda>s. s),
             usedStyle = (\<lambda>s. s), availStyle = (\<lambda>s. s), percentStyle = (\<lambda>s. s) \<rparr>"

section \<open>Notions used in the statements\<close>

text \<open>The record the parser builds from the fields of a line.\<close>

definition line_record :: "string list \<Rightarrow> DiskInfo" where
  "line_record fs =
     \<lparr> Filesystem = fs ! 0,
       Size = wrap_int64 (fst (ParseInt (fs ! 1)) * 1024),
       Used = wrap_int64 (fst (ParseInt (fs ! 2)) * 1024),
       Available = wrap_int64 (fst (ParseInt (fs ! 3)) * 1024),
       UsePercent = fst (Atoi (TrimSuffix (fs ! 4) ''%'')),
       MountPoint = fs ! 5 \<rparr>"

text \<open>Sample lines and the record of the sample row.\<close>

definition sample_header :: string where
  "sample_header = ''Filesystem 1K-blocks Used Available Use% Mounted on''"

definition sample_row :: string where
  "sample_row = ''/dev/sda1 1048576 524288 524288 50% /''"

definition sample_record :: DiskInfo where
  "sample_record =
     \<lparr> Filesystem = ''/dev/sda1'', Size = 1073741824, Used = 536870912,
       Available = 536870912, UsePercent = 50, MountPoint = ''/'' \<rparr>"

definition overlay_row :: string where
  "overlay_row = ''overlay 1048576 524288 524288 50% /var/lib/docker''"

definition short_row :: string where
  "short_row = ''/dev/sda1 1048576 524288 524288''"

definition garbled_row :: string where
  "garbled_row
     = ''/dev/sda1 1K-blocks 99999999999999999999abc -99999999999999999999 n/a /''"

text \<open>The decimal digits.\<close>

definition is_digit :: "char \<Rightarrow> bool" where
  "is_digit c = (c \<in> set ''0123456789'')"

text \<open>A decimal numeral with exactly two digits after the point, such as \<^verbatim>\<open>12.50\<close>.\<close>

definition two_decimals :: "string \<Rightarrow> bool" where
  "two_decimals v =
     (case rev v of
        d2 # d1 # dot # ip \<Rightarrow> dot = CHR ''.'' \<and> ip \<noteq> [] \<and> list_all is_digit (d1 # d2 # ip)
      | _ \<Rightarrow> False)"

text \<open>The number a decimal digit stands for.\<close>

definition digit_val :: "char \<Rightarrow> int" where
  "digit_val c = int (of_char c) - 48"

text \<open>An unsigned decimal numeral, and the number it denotes.\<close>

definition is_decimal :: "string \<Rightarrow> bool" where
  "is_decimal s = (s \<noteq> [] \<and> list_all is_digit s)"

definition decimal_value :: "string \<Rightarrow> int" where
  "decimal_value s = foldl (\<lambda>a c. a * 10 + digit_val c) 0 s"

text \<open>
  How a token reads as a number. After one optional sign come its leading digits. The
  token is malformed when nothing follows the sign, or when a byte that is no digit
  follows leading digits that still fit in 64 unsigned bits. It is out of range when its
  leading digits alone exceed 64 unsigned bits, whatever follows them, or when it is all
  digits and the signed number does not fit in 64 bits.
\<close>

definition number_part :: "string \<Rightarrow> string" where
  "number_part t = (if t \<noteq> [] \<and> (hd t = CHR ''+'' \<or> hd t = CHR ''-'') then tl t else t)"

definition minus_sign :: "string \<Rightarrow> bool" where
  "minus_sign t = (t \<noteq> [] \<and> hd t = CHR ''-'')"

definition leading_digits :: "string \<Rightarrow> string" where
  "leading_digits t = takeWhile is_digit (number_part t)"

definition malformed :: "string \<Rightarrow> bool" where
  "malformed t =
     (number_part t = []
      \<or> (leading_digits t \<noteq> number_part t \<and> decimal_value (leading_digits t) < 2 ^ 64))"

definition out_of_range :: "string \<Rightarrow> bool" where
  "out_of_range t =
     (2 ^ 64 \<le> decimal_value (leading_digits t)
      \<or> (number_part t \<noteq> [] \<and> leading_digits t = number_part t
          \<and> (if minus_sign t then 2 ^ 63 < decimal_value (number_part t)
              else 2 ^ 63 \<le> decimal_value (number_part t))))"

text \<open>
  The block of a record whose percentage is between 0 and 100, written out: six lines
  with the filesystem, the three sizes, the percentage and the mount point, each in its
  style, then the bar, which has \<open>p * 30 div 100\<close> full cells followed by the light cells
  that fill it up to 30, and an empty line.
\<close>

definition block :: "Styles \<Rightarrow> DiskInfo \<Rightarrow> string" where
  "block st di =
     fsStyle st (Filesystem di) @ [CHR 0x0A]
     @ [CHR 0xE2, CHR 0x94, CHR 0x9C, CHR 0xE2, CHR 0x94, CHR 0x80] @ '' Size: ''
     @ sizeStyle st (formatSize (Size di)) @ [CHR 0x0A]
     @ [CHR 0xE2, CHR 0x94, CHR 0x9C, CHR 0xE2, CHR 0x94, CHR 0x80] @ '' Used: ''
     @ usedStyle st (formatSize (Used di)) @ [CHR 0x0A]
     @ [CHR 0xE2, CHR 0x94, CHR 0x9C, CHR 0xE2, CHR 0x94, CHR 0x80] @ '' Available: ''
     @ availStyle st (formatSize (Available di)) @ [CHR 0x0A]
     @ [CHR 0xE2, CHR 0x94, CHR 0x9C, CHR 0xE2, CHR 0x94, CHR 0x80] @ '' Usage: ''
     @ percentStyle st (show_digits (UsePercent di) @ ''%'') @ [CHR 0x0A]
     @ [CHR 0xE2, CHR 0x94, CHR 0x9C, CHR 0xE2, CHR 0x94, CHR 0x80] @ '' Mounted on: ''
     @ mountStyle st (MountPoint di) @ [CHR 0x0A]
     @ [CHR 0xE2, CHR 0x94, CHR 0x94, CHR 0xE2, CHR 0x94, CHR 0x80] @ '' [''
     @ usedStyle st
         (concat (replicate (nat (UsePercent di * 30 div 100)) [CHR 0xE2, CHR 0x96, CHR 0x88]))
     @ availStyle st
         (concat (replicate (30 - nat (UsePercent di * 30 div 100))
            [CHR 0xE2, CHR 0x96, CHR 0x91]))
     @ '']'' @ [CHR 0x0A, CHR 0x0A]"

section \<open>Properties of the parser\<close>

lemma parse_lines_acc: "parse_lines ls acc = acc @ parse_lines ls []"
proof (induction ls arbitrary: acc)
  case Nil
  show ?case by simp
next
  case (Cons l ls)
  show ?case
  proof (cases "parseLine l")
    case None
    then show ?thesis using Cons.IH [of acc] by simp
  next
    case (Some di)
    then show ?thesis using Cons.IH [of "acc @ [di]"] Cons.IH [of "[di]"] by simp
  qed
qed

lemma parse_lines_append:
  "parse_lines (xs @ ys) [] = parse_lines xs [] @ parse_lines ys []"
proof (induction xs)
  case Nil
  show ?case by simp
next
  case (Cons l xs)
  show ?case
  proof (cases "parseLine l")
    case None
    then show ?thesis using Cons.IH by simp
  next
    case (Some di)
    then show ?thesis
      using Cons.IH parse_lines_acc [of "xs @ ys" "[di]"] parse_lines_acc [of xs "[di]"]
      by simp
  qed
qed

lemma parse_lines_skip:
  "parseLine l = None \<Longrightarrow> parse_lines (pre @ l # post) [] = parse_lines pre [] @ parse_lines post []"
  using parse_lines_append [of pre "l # post"] by simp

lemma parse_lines_keep:
  "parseLine l = Some di \<Longrightarrow>
   parse_lines (pre @ l # post) [] = parse_lines pre [] @ di # parse_lines post []"
  using parse_lines_append [of pre "l # post"] parse_lines_acc [of post "[di]"] by simp

lemma parseDfOutput_lines:
  "Split output newline = hdr # ls \<Longrightarrow> parseDfOutput output = parse_lines ls []"
  by (simp add: parseDfOutput_def)

lemma HasPrefix_Nil: "p \<noteq> [] \<Longrightarrow> \<not> HasPrefix [] p"
  by (simp add: HasPrefix_def)

lemma parseLine_no_prefix:
  assumes "\<not> HasPrefix (TrimSpace l) ''/''" "\<not> HasPrefix (TrimSpace l) ''tmpfs''"
    "\<not> HasPrefix (TrimSpace l) ''devtmpfs''"
  shows "parseLine l = None"
  using assms by (simp add: parseLine_def Let_def)

lemma parseLine_few_fields:
  assumes "length (splitDfLine (TrimSpace l)) < 6"
  shows "parseLine l = None"
  using assms by (simp add: parseLine_def Let_def)

lemma parseLine_eligible:
  assumes "HasPrefix (TrimSpace l) ''/'' \<or> HasPrefix (TrimSpace l) ''tmpfs''
           \<or> HasPrefix (TrimSpace l) ''devtmpfs''"
    and "6 \<le> length (splitDfLine (TrimSpace l))"
  shows "parseLine l = Some (line_record (splitDfLine (TrimSpace l)))"
proof -
  have "TrimSpace l \<noteq> []"
    using assms(1) HasPrefix_Nil by fastforce
  then show ?thesis
    using assms by (auto simp: parseLine_def Let_def line_record_def)
qed

text \<open>
  C1. The header line followed by the row \<^verbatim>\<open>/dev/sda1 1048576 524288 524288 50% /\<close>
  parses to exactly one record: filesystem \<^verbatim>\<open>/dev/sda1\<close>, size 1073741824 bytes, used
  536870912, available 536870912, use percentage 50, mount point \<^verbatim>\<open>/\<close>.
\<close>

theorem parseDfOutput_one_row:
  "parseDfOutput
     (''Filesystem 1K-blocks Used Available Use% Mounted on'' @ [newline]
      @ ''/dev/sda1 1048576 524288 524288 50% /'')
   = [\<lparr> Filesystem = ''/dev/sda1'', Size = 1073741824, Used = 536870912,
         Available = 536870912, UsePercent = 50, MountPoint = ''/'' \<rparr>]"
  by code_simp

lemma parseLine_sample_row: "parseLine sample_row = Some sample_record"
  by code_simp

text \<open>
  C5. A line after the header whose trimmed text is not empty and begins with none of
  \<^verbatim>\<open>/\<close>, \<^verbatim>\<open>tmpfs\<close>, \<^verbatim>\<open>devtmpfs\<close> gives no record: the parser returns what it returns
  for the other lines. The prefix test is the only test on the kind of filesystem: a line
  that passes it and has six fields or more always gives its record, in its place.
\<close>

theorem prefix_filter:
  assumes "Split output newline = hdr # pre @ l # post"
  shows "(TrimSpace l \<noteq> [] \<and> \<not> HasPrefix (TrimSpace l) ''/''
            \<and> \<not> HasPrefix (TrimSpace l) ''tmpfs'' \<and> \<not> HasPrefix (TrimSpace l) ''devtmpfs''
          \<longrightarrow> parseLine l = None
              \<and> parseDfOutput output = parse_lines pre [] @ parse_lines post [])
       \<and> ((HasPrefix (TrimSpace l) ''/'' \<or> HasPrefix (TrimSpace l) ''tmpfs''
              \<or> HasPrefix (TrimSpace l) ''devtmpfs'')
            \<and> 6 \<le> length (splitDfLine (TrimSpace l))
          \<longrightarrow> parseDfOutput output
                = parse_lines pre [] @ line_record (splitDfLine (TrimSpace l))
                    # parse_lines post [])"
proof (intro conjI impI)
  assume a: "TrimSpace l \<noteq> [] \<and> \<not> HasPrefix (TrimSpace l) ''/''
    \<and> \<not> HasPrefix (TrimSpace l) ''tmpfs'' \<and> \<not> HasPrefix (TrimSpace l) ''devtmpfs''"
  then show none: "parseLine l = None"
    by (simp add: parseLine_no_prefix)
  show "parseDfOutput output = parse_lines pre [] @ parse_lines post []"
    using parseDfOutput_lines [OF assms] parse_lines_skip [OF none] by simp
next
  assume "(HasPrefix (TrimSpace l) ''/'' \<or> HasPrefix (TrimSpace l) ''tmpfs''
      \<or> HasPrefix (TrimSpace l) ''devtmpfs'')
    \<and> 6 \<le> length (splitDfLine (TrimSpace l))"
  then have "parseLine l = Some (line_record (splitDfLine (TrimSpace l)))"
    by (simp add: parseLine_eligible)
  then show "parseDfOutput output
      = parse_lines pre [] @ line_record (splitDfLine (TrimSpace l)) # parse_lines post []"
    using parseDfOutput_lines [OF assms] parse_lines_keep by simp
qed

theorem prefix_filter_witness:
  "parseLine overlay_row = None
   \<and> parseDfOutput (sample_header @ [newline] @ sample_row @ [newline] @ overlay_row
        @ [newline] @ sample_row)
     = [sample_record, sample_record]"
proof -
  have s: "Split (sample_header @ [newline] @ sample_row @ [newline] @ overlay_row
        @ [newline] @ sample_row) newline
      = sample_header # [sample_row] @ overlay_row # [sample_row]"
    by code_simp
  have t: "TrimSpace overlay_row \<noteq> [] \<and> \<not> HasPrefix (TrimSpace overlay_row) ''/''
      \<and> \<not> HasPrefix (TrimSpace overlay_row) ''tmpfs''
      \<and> \<not> HasPrefix (TrimSpace overlay_row) ''devtmpfs''"
    by code_simp
  have p: "parse_lines [sample_row] [] = [sample_record]"
    by (simp add: parseLine_sample_row)
  show ?thesis
    using prefix_filter [OF s] t p by simp
qed

text \<open>
  C6. A line that passes the prefix test and splits into fewer than six fields is dropped
  without a trace: it gives no record, and the parser returns only the list of records,
  the one it returns for the other lines, so no error and no count of dropped lines
  comes out of it.
\<close>

theorem short_line_dropped:
  assumes "Split output newline = hdr # pre @ l # post"
    and "HasPrefix (TrimSpace l) ''/'' \<or> HasPrefix (TrimSpace l) ''tmpfs''
         \<or> HasPrefix (TrimSpace l) ''devtmpfs''"
    and "length (splitDfLine (TrimSpace l)) < 6"
  shows "parseLine l = None
       \<and> parseDfOutput output = parse_lines pre [] @ parse_lines post []"
proof -
  have none: "parseLine l = None"
    using assms(3) by (rule parseLine_few_fields)
  then show ?thesis
    using parseDfOutput_lines [OF assms(1)] parse_lines_skip [OF none] by simp
qed

theorem short_line_dropped_witness:
  "length (splitDfLine (TrimSpace short_row)) = 4
   \<and> parseLine short_row = None
   \<and> parseDfOutput (sample_header @ [newline] @ short_row @ [newline] @ sample_row)
     = [sample_record]"
proof -
  have s: "Split (sample_header @ [newline] @ short_row @ [newline] @ sample_row) newline
      = sample_header # [] @ short_row # [sample_row]"
    by code_simp
  have t: "HasPrefix (TrimSpace short_row) ''/'' \<or> HasPrefix (TrimSpace short_row) ''tmpfs''
      \<or> HasPrefix (TrimSpace short_row) ''devtmpfs''"
    by code_simp
  have n: "length (splitDfLine (TrimSpace short_row)) = 4"
    by code_simp
  have p: "parse_lines [sample_row] [] = [sample_record]"
    by (simp add: parseLine_sample_row)
  show ?thesis
    using short_line_dropped [OF s t] n p by simp
qed

text \<open>
  C10. The percent field loses at most one trailing \<^verbatim>\<open>%\<close> before it is parsed:
  \<^verbatim>\<open>50\<close> and \<^verbatim>\<open>50%\<close> both give the percentage 50, and \<^verbatim>\<open>50%%\<close> is left as
  \<^verbatim>\<open>50%\<close>, which is no number, so the percentage is 0.
\<close>

theorem percent_suffix_once:
  "TrimSuffix (s @ ''%'') ''%'' = s
   \<and> TrimSuffix (s @ ''%%'') ''%'' = s @ ''%''
   \<and> map UsePercent (parseDfOutput (sample_header @ [newline]
        @ ''/dev/sda1 1048576 524288 524288 50 /'')) = [50]
   \<and> map UsePercent (parseDfOutput (sample_header @ [newline]
        @ ''/dev/sda1 1048576 524288 524288 50% /'')) = [50]
   \<and> map UsePercent (parseDfOutput (sample_header @ [newline]
        @ ''/dev/sda1 1048576 524288 524288 50%% /'')) = [0]
   \<and> Atoi (TrimSuffix ''50%%'' ''%'') = (0, Some ErrSyntax)
   \<and> Atoi (TrimSuffix ''50%'' ''%'') = (50, None)
   \<and> Atoi (TrimSuffix ''50'' ''%'') = (50, None)"
proof -
  have a: "TrimSuffix (s @ ''%'') ''%'' = s"
    by (simp add: TrimSuffix_def HasSuffix_def)
  have b: "TrimSuffix (s @ ''%%'') ''%'' = s @ ''%''"
    by (simp add: TrimSuffix_def HasSuffix_def)
  have c: "map UsePercent (parseDfOutput (sample_header @ [newline]
        @ ''/dev/sda1 1048576 524288 524288 50 /'')) = [50]"
    by code_simp
  have d: "map UsePercent (parseDfOutput (sample_header @ [newline]
        @ ''/dev/sda1 1048576 524288 524288 50% /'')) = [50]"
    by code_simp
  have e: "map UsePercent (parseDfOutput (sample_header @ [newline]
        @ ''/dev/sda1 1048576 524288 524288 50%% /'')) = [0]"
    by code_simp
  have f: "Atoi (TrimSuffix ''50%%'' ''%'') = (0, Some ErrSyntax)"
    by code_simp
  have g: "Atoi (TrimSuffix ''50%'' ''%'') = (50, None)"
    by code_simp
  have h: "Atoi (TrimSuffix ''50'' ''%'') = (50, None)"
    by code_simp
  from a b c d e f g h show ?thesis by blast
qed

subsection \<open>Unsigned decimal fields\<close>

lemma wrap_int64_bounds: "wrap_int64 ((2 ^ 63 - 1) * 1024) = - 1024" "wrap_int64 (- (2 ^ 63) * 1024) = 0"
  by (simp_all add: wrap_int64_def)

lemma wrap_int64_small: "- (2 ^ 63) \<le> x \<Longrightarrow> x < 2 ^ 63 \<Longrightarrow> wrap_int64 x = x"
  by (simp add: wrap_int64_def)

lemma is_digit_digit_of:
  assumes "is_digit c"
  shows "digit_of c = Some (digit_val c) \<and> 0 \<le> digit_val c \<and> digit_val c < 10"
  using assms by (auto simp: is_digit_def digit_of_def digit_val_def)

lemma is_digit_no_sign: "is_digit c \<Longrightarrow> c \<noteq> CHR ''+'' \<and> c \<noteq> CHR ''-''"
  by (auto simp: is_digit_def)

lemma decimal_fold_ge:
  "list_all is_digit s \<Longrightarrow> 0 \<le> n \<Longrightarrow> n \<le> foldl (\<lambda>a c. a * 10 + digit_val c) n s"
proof (induction s arbitrary: n)
  case Nil
  show ?case by simp
next
  case (Cons c s)
  then have d: "0 \<le> digit_val c" using is_digit_digit_of by simp
  with Cons.prems have "0 \<le> n * 10 + digit_val c" by simp
  then have "n * 10 + digit_val c \<le> foldl (\<lambda>a c. a * 10 + digit_val c) (n * 10 + digit_val c) s"
    using Cons by simp
  then show ?case using d Cons.prems by simp
qed

lemma ParseUint_loop_decimal:
  assumes "list_all is_digit s" "0 \<le> n"
    and "foldl (\<lambda>a c. a * 10 + digit_val c) n s < 2 ^ 64"
  shows "ParseUint_loop n s = (foldl (\<lambda>a c. a * 10 + digit_val c) n s, None)"
  using assms
proof (induction s arbitrary: n)
  case Nil
  show ?case by simp
next
  case (Cons c s)
  define n1 where "n1 = n * 10 + digit_val c"
  have digit: "digit_of c = Some (digit_val c)" "0 \<le> digit_val c" "digit_val c < 10"
    using Cons.prems(1) is_digit_digit_of by simp_all
  have rest: "list_all is_digit s" using Cons.prems(1) by simp
  have n1_nonneg: "0 \<le> n1" using Cons.prems(2) digit(2) by (simp add: n1_def)
  have below: "foldl (\<lambda>a c. a * 10 + digit_val c) n1 s < 2 ^ 64"
    using Cons.prems(3) by (simp add: n1_def)
  have "n1 \<le> foldl (\<lambda>a c. a * 10 + digit_val c) n1 s"
    using rest n1_nonneg by (rule decimal_fold_ge)
  with below have n1_small: "n1 < 2 ^ 64" by simp
  then have n_small: "n * 10 < 2 ^ 64" using digit(2) by (simp add: n1_def)
  then have cutoff: "\<not> n \<ge> maxUint64 div 10 + 1" by (simp add: maxUint64_def)
  have w10: "wrap_uint64 (n * 10) = n * 10"
    using Cons.prems(2) n_small by (simp add: wrap_uint64_def)
  have w1: "wrap_uint64 (n * 10 + digit_val c) = n1"
    using n1_nonneg n1_small by (simp add: wrap_uint64_def n1_def)
  have no_overflow: "\<not> (n1 < n * 10 \<or> n1 > maxUint64)"
    using digit(2) n1_small by (simp add: n1_def maxUint64_def)
  have "ParseUint_loop n (c # s) = ParseUint_loop n1 s"
    using digit cutoff no_overflow by (simp add: w10 w1 Let_def)
  also have "\<dots> = (foldl (\<lambda>a c. a * 10 + digit_val c) n1 s, None)"
    using rest n1_nonneg below by (rule Cons.IH)
  finally show ?case by (simp add: n1_def)
qed

lemma ParseInt_decimal:
  assumes "is_decimal s" "decimal_value s < 2 ^ 63"
  shows "ParseInt s = (decimal_value s, None)"
proof -
  from assms(1) obtain c cs where s: "s = c # cs" and c: "is_digit c" and all: "list_all is_digit s"
    by (cases s) (auto simp: is_decimal_def)
  have sign: "hd s \<noteq> CHR ''+''" "hd s \<noteq> CHR ''-''"
    using c is_digit_no_sign by (simp_all add: s)
  have "decimal_value s < 2 ^ 64" using assms(2) by simp
  then have "ParseUint_loop 0 s = (decimal_value s, None)"
    using ParseUint_loop_decimal [OF all, of 0] by (simp add: decimal_value_def)
  then have "ParseUint s = (decimal_value s, None)"
    by (simp add: ParseUint_def s)
  then show ?thesis
    using sign assms(2) by (simp add: ParseInt_def s)
qed

lemma decimal_value_nonneg: "is_decimal s \<Longrightarrow> 0 \<le> decimal_value s"
  using decimal_fold_ge [of s 0] by (simp add: is_decimal_def decimal_value_def)

lemma size_field_decimal:
  assumes "is_decimal t" "decimal_value t < 2 ^ 53"
  shows "wrap_int64 (fst (ParseInt t) * 1024) = 1024 * decimal_value t"
    and "0 \<le> wrap_int64 (fst (ParseInt t) * 1024)"
proof -
  have v: "0 \<le> decimal_value t" using assms(1) by (rule decimal_value_nonneg)
  have "decimal_value t < 2 ^ 63" using assms(2) by simp
  then have p: "fst (ParseInt t) = decimal_value t"
    using ParseInt_decimal [OF assms(1)] by simp
  have "decimal_value t * 1024 < 2 ^ 63" using assms(2) by simp
  then show "wrap_int64 (fst (ParseInt t) * 1024) = 1024 * decimal_value t"
    using v by (simp add: p wrap_int64_small)
  then show "0 \<le> wrap_int64 (fst (ParseInt t) * 1024)"
    using v by simp
qed

lemma parseLine_SomeD:
  assumes "parseLine l = Some di"
  shows "di = line_record (splitDfLine (TrimSpace l))"
  using assms by (auto simp: parseLine_def Let_def line_record_def split: if_splits)

text \<open>
  C8, as the code has it. The three size fields of a record are 1024 times the parsed
  numbers, kept in 64 bits. They are not negative, and equal to 1024 times the number
  written, when each of the three fields of the line is an unsigned decimal numeral
  below \<open>2^53\<close>. Nothing in the parser rejects a minus sign or a larger number.
\<close>

theorem sizes_nonnegative:
  assumes "parseLine l = Some di" and "fs = splitDfLine (TrimSpace l)"
    and "\<forall>i \<in> {1, 2, 3}. is_decimal (fs ! i) \<and> decimal_value (fs ! i) < 2 ^ 53"
  shows "0 \<le> Size di \<and> 0 \<le> Used di \<and> 0 \<le> Available di
       \<and> Size di = 1024 * decimal_value (fs ! 1)
       \<and> Used di = 1024 * decimal_value (fs ! 2)
       \<and> Available di = 1024 * decimal_value (fs ! 3)"
proof -
  have di: "di = line_record fs"
    using assms(1,2) parseLine_SomeD by simp
  have f1: "is_decimal (fs ! 1)" "decimal_value (fs ! 1) < 2 ^ 53"
    and f2: "is_decimal (fs ! 2)" "decimal_value (fs ! 2) < 2 ^ 53"
    and f3: "is_decimal (fs ! 3)" "decimal_value (fs ! 3) < 2 ^ 53"
    using assms(3) by simp_all
  show ?thesis
    using size_field_decimal [OF f1] size_field_decimal [OF f2] size_field_decimal [OF f3]
    by (simp add: di line_record_def)
qed

theorem sizes_nonnegative_witness:
  "\<exists>di. parseLine sample_row = Some di
     \<and> 0 \<le> Size di \<and> 0 \<le> Used di \<and> 0 \<le> Available di
     \<and> Size di = 1024 * 1048576"
proof -
  have a: "parseLine sample_row = Some sample_record"
    by (rule parseLine_sample_row)
  have b: "[''/dev/sda1'', ''1048576'', ''524288'', ''524288'', ''50%'', ''/'']
      = splitDfLine (TrimSpace sample_row)"
    by code_simp
  have c: "is_decimal ''1048576'' \<and> decimal_value ''1048576'' = 1048576"
    "is_decimal ''524288'' \<and> decimal_value ''524288'' = 524288"
    by code_simp+
  then have d: "\<forall>i \<in> {1, 2, 3}.
      is_decimal ([''/dev/sda1'', ''1048576'', ''524288'', ''524288'', ''50%'', ''/''] ! i)
      \<and> decimal_value ([''/dev/sda1'', ''1048576'', ''524288'', ''524288'', ''50%'', ''/''] ! i)
          < 2 ^ 53"
    by simp
  show ?thesis
    using sizes_nonnegative [OF a b d] a c by simp
qed

text \<open>
  The claim as the specification states it fails on a field with a minus sign, and on a
  number of kilobytes from \<open>2^53\<close> on, whose product with 1024 leaves the 64-bit range.
\<close>

theorem sizes_negative_counterexample:
  "map Size (parseDfOutput (sample_header @ [newline]
      @ ''/dev/sda1 -5 524288 524288 50% /'')) = [- 5120]
   \<and> map Size (parseDfOutput (sample_header @ [newline]
      @ ''/dev/sda1 9007199254740992 524288 524288 50% /'')) = [- 9223372036854775808]"
proof -
  have a: "map Size (parseDfOutput (sample_header @ [newline]
      @ ''/dev/sda1 -5 524288 524288 50% /'')) = [- 5120]"
    by code_simp
  have b: "map Size (parseDfOutput (sample_header @ [newline]
      @ ''/dev/sda1 9007199254740992 524288 524288 50% /'')) = [- 9223372036854775808]"
    by code_simp
  from a b show ?thesis by blast
qed

subsection \<open>Numeric fields\<close>

lemma digit_of_small_is_digit:
  assumes "digit_of c = Some d" "d < 10"
  shows "is_digit c"
proof -
  define b where "b = (of_char c :: nat)"
  from assms have "48 \<le> b \<and> b \<le> 57"
    by (auto simp: digit_of_def Let_def b_def split: if_splits)
  then have "b = 48 \<or> b = 49 \<or> b = 50 \<or> b = 51 \<or> b = 52 \<or> b = 53 \<or> b = 54 \<or> b = 55
      \<or> b = 56 \<or> b = 57"
    by arith
  then have "\<exists>x \<in> set ''0123456789''. (of_char x :: nat) = b"
    by auto
  then obtain x where x: "x \<in> set ''0123456789''" "(of_char x :: nat) = of_char c"
    unfolding b_def by blast
  from x(2) have "x = c" by (simp only: of_char_eq_iff)
  then show ?thesis using x(1) by (simp only: is_digit_def)
qed

lemma not_digit_syntax:
  assumes "\<not> is_digit c"
  shows "ParseUint_loop n (c # s) = (0, Some ErrSyntax)"
proof (cases "digit_of c")
  case None
  then show ?thesis by simp
next
  case (Some d)
  then have "\<not> d < 10" using assms digit_of_small_is_digit by blast
  then show ?thesis using Some by simp
qed

lemma ParseUint_loop_token:
  assumes "0 \<le> n" "n < 2 ^ 64"
  shows "ParseUint_loop n s =
     (if 2 ^ 64 \<le> foldl (\<lambda>a c. a * 10 + digit_val c) n (takeWhile is_digit s)
      then (maxUint64, Some ErrRange)
      else if takeWhile is_digit s \<noteq> s then (0, Some ErrSyntax)
      else (foldl (\<lambda>a c. a * 10 + digit_val c) n s, None))"
  using assms
proof (induction s arbitrary: n)
  case Nil
  then show ?case by simp
next
  case (Cons c s)
  show ?case
  proof (cases "is_digit c")
    case False
    then show ?thesis
      using Cons.prems not_digit_syntax [OF False] by simp
  next
    case True
    define n1 where "n1 = n * 10 + digit_val c"
    define V where "V = foldl (\<lambda>a c. a * 10 + digit_val c) n1 (takeWhile is_digit s)"
    have digit: "digit_of c = Some (digit_val c)" "0 \<le> digit_val c" "digit_val c < 10"
      using True is_digit_digit_of by simp_all
    have n1_nonneg: "0 \<le> n1" using Cons.prems(1) digit(2) by (simp add: n1_def)
    have mono: "n1 \<le> V"
      unfolding V_def using n1_nonneg
      by (intro decimal_fold_ge) (simp_all add: list_all_iff, metis set_takeWhileD)
    have tw: "takeWhile is_digit (c # s) = c # takeWhile is_digit s" using True by simp
    have V': "foldl (\<lambda>a c. a * 10 + digit_val c) n (takeWhile is_digit (c # s)) = V"
      using True by (simp add: V_def n1_def)
    show ?thesis
    proof (cases "n1 < 2 ^ 64")
      case small: True
      then have n_small: "n * 10 < 2 ^ 64" using digit(2) by (simp add: n1_def)
      then have cutoff: "\<not> n \<ge> maxUint64 div 10 + 1" by (simp add: maxUint64_def)
      have w10: "wrap_uint64 (n * 10) = n * 10"
        using Cons.prems(1) n_small by (simp add: wrap_uint64_def)
      have w1: "wrap_uint64 (n * 10 + digit_val c) = n1"
        using n1_nonneg small by (simp add: wrap_uint64_def n1_def)
      have no_overflow: "\<not> (n1 < n * 10 \<or> n1 > maxUint64)"
        using digit(2) small by (simp add: n1_def maxUint64_def)
      have step: "ParseUint_loop n (c # s) = ParseUint_loop n1 s"
        using digit cutoff no_overflow by (simp add: w10 w1 Let_def)
      have rest: "(takeWhile is_digit (c # s) \<noteq> c # s) = (takeWhile is_digit s \<noteq> s)"
        using True by simp
      have fold: "foldl (\<lambda>a c. a * 10 + digit_val c) n (c # s)
          = foldl (\<lambda>a c. a * 10 + digit_val c) n1 s"
        by (simp add: n1_def)
      show ?thesis
        unfolding step V' rest fold
        using Cons.IH [OF n1_nonneg small] by (simp add: V_def)
    next
      case big: False
      then have Vbig: "2 ^ 64 \<le> V" using mono by linarith
      have "ParseUint_loop n (c # s) = (maxUint64, Some ErrRange)"
      proof (cases "n \<ge> maxUint64 div 10 + 1")
        case True
        then show ?thesis using digit by simp
      next
        case False
        then have n10: "n * 10 < 2 ^ 64" by (simp add: maxUint64_def)
        have w10: "wrap_uint64 (n * 10) = n * 10"
          using Cons.prems(1) n10 by (simp add: wrap_uint64_def)
        have "n1 < 2 ^ 64 + 2 ^ 64" using n10 digit(3) by (simp add: n1_def)
        then have range: "0 \<le> n1 - 2 ^ 64" "n1 - 2 ^ 64 < 2 ^ 64"
          using big by simp_all
        have "n1 mod 2 ^ 64 = (n1 - 2 ^ 64) mod 2 ^ 64"
          by (simp only: minus_mod_self2)
        also have "\<dots> = n1 - 2 ^ 64"
          using range by (rule mod_pos_pos_trivial)
        finally have w1: "wrap_uint64 (n * 10 + digit_val c) = n1 - 2 ^ 64"
          by (simp only: wrap_uint64_def n1_def)
        have "n1 - 2 ^ 64 < n * 10"
          using digit(3) by (simp add: n1_def)
        then show ?thesis
          using digit False by (simp add: w10 w1 Let_def)
      qed
      then show ?thesis
        unfolding V' using Vbig by simp
    qed
  qed
qed

lemma ParseUint_token:
  "ParseUint s =
     (if s = [] then (0, Some ErrSyntax)
      else if 2 ^ 64 \<le> decimal_value (takeWhile is_digit s) then (maxUint64, Some ErrRange)
      else if takeWhile is_digit s \<noteq> s then (0, Some ErrSyntax)
      else (decimal_value s, None))"
  using ParseUint_loop_token [of 0 s]
  by (simp add: ParseUint_def decimal_value_def)

text \<open>What \<^verbatim>\<open>ParseInt\<close> returns, read off the token.\<close>

lemma ParseInt_token:
  "ParseInt t =
     (if malformed t then (0, Some ErrSyntax)
      else if out_of_range t then
        (if minus_sign t then - (2 ^ 63) else 2 ^ 63 - 1, Some ErrRange)
      else
        (if minus_sign t then - decimal_value (number_part t)
         else decimal_value (number_part t), None))"
proof (cases "t = []")
  case True
  then show ?thesis
    by (simp add: ParseInt_def malformed_def number_part_def)
next
  case False
  define b where "b = number_part t"
  have s1: "(if hd t = CHR ''+'' \<or> hd t = CHR ''-'' then tl t else t) = b"
    using False by (simp add: b_def number_part_def)
  have neg: "minus_sign t = (hd t = CHR ''-'')"
    using False by (simp add: minus_sign_def)
  have v: "0 \<le> decimal_value (takeWhile is_digit b)"
    using decimal_fold_ge [of "takeWhile is_digit b" 0]
    by (simp add: decimal_value_def list_all_iff) (metis set_takeWhileD)
  show ?thesis
    unfolding ParseInt_def Let_def s1 ParseUint_token [of b]
      malformed_def out_of_range_def leading_digits_def b_def [symmetric] neg
    using False v by (auto simp: maxUint64_def)
qed

lemma size_field_token:
  "malformed t \<Longrightarrow> wrap_int64 (fst (ParseInt t) * 1024) = 0"
  "\<not> malformed t \<Longrightarrow> out_of_range t \<Longrightarrow>
   wrap_int64 (fst (ParseInt t) * 1024) = (if minus_sign t then 0 else - 1024)"
  by (simp_all add: ParseInt_token wrap_int64_def)

lemma malformed_not_out_of_range: "malformed t \<Longrightarrow> \<not> out_of_range t"
proof -
  assume m: "malformed t"
  show "\<not> out_of_range t"
  proof (cases "number_part t = []")
    case True
    then show ?thesis
      by (simp add: out_of_range_def leading_digits_def decimal_value_def)
  next
    case False
    then show ?thesis
      using m by (auto simp: out_of_range_def malformed_def)
  qed
qed

text \<open>
  C7, as the code has it. A line that passes the prefix test and has six fields or more
  always gives a record, whatever its numeric fields hold. A field fails to parse exactly
  when its token is malformed or out of range. A malformed token gives the field 0. A
  token out of range does not: \<^verbatim>\<open>ParseInt\<close> returns the nearest 64-bit bound, so a size
  field becomes -1024 without a minus sign and 0 with one, and the percentage becomes
  \<open>2^63 - 1\<close> or \<open>- 2^63\<close>. A token whose leading digits already exceed 64 unsigned bits
  is out of range even when bytes that are no digits follow.
\<close>

theorem numeric_failure_fields:
  assumes "HasPrefix (TrimSpace l) ''/'' \<or> HasPrefix (TrimSpace l) ''tmpfs''
           \<or> HasPrefix (TrimSpace l) ''devtmpfs''"
    and "6 \<le> length (splitDfLine (TrimSpace l))"
    and "fs = splitDfLine (TrimSpace l)"
    and "pct = TrimSuffix (fs ! 4) ''%''"
  shows "\<exists>di. parseLine l = Some di
       \<and> (malformed (fs ! 1) \<longrightarrow> Size di = 0)
       \<and> (malformed (fs ! 2) \<longrightarrow> Used di = 0)
       \<and> (malformed (fs ! 3) \<longrightarrow> Available di = 0)
       \<and> (malformed pct \<longrightarrow> UsePercent di = 0)
       \<and> (out_of_range (fs ! 1) \<longrightarrow> Size di = (if minus_sign (fs ! 1) then 0 else - 1024))
       \<and> (out_of_range (fs ! 2) \<longrightarrow> Used di = (if minus_sign (fs ! 2) then 0 else - 1024))
       \<and> (out_of_range (fs ! 3) \<longrightarrow>
            Available di = (if minus_sign (fs ! 3) then 0 else - 1024))
       \<and> (out_of_range pct \<longrightarrow>
            UsePercent di = (if minus_sign pct then - (2 ^ 63) else 2 ^ 63 - 1))
       \<and> (snd (ParseInt t) = Some ErrSyntax) = malformed t
       \<and> (snd (ParseInt t) = Some ErrRange) = out_of_range t
       \<and> (snd (Atoi t) \<noteq> None) = (malformed t \<or> out_of_range t)"
proof -
  have rec: "parseLine l = Some (line_record fs)"
    using assms by (simp add: parseLine_eligible)
  have syn: "\<And>t. malformed t \<Longrightarrow> wrap_int64 (fst (ParseInt t) * 1024) = 0"
    by (rule size_field_token(1))
  have ran: "\<And>t. out_of_range t \<Longrightarrow>
      wrap_int64 (fst (ParseInt t) * 1024) = (if minus_sign t then 0 else - 1024)"
    using size_field_token(2) malformed_not_out_of_range by blast
  have sizes:
    "malformed (fs ! 1) \<longrightarrow> Size (line_record fs) = 0"
    "malformed (fs ! 2) \<longrightarrow> Used (line_record fs) = 0"
    "malformed (fs ! 3) \<longrightarrow> Available (line_record fs) = 0"
    "out_of_range (fs ! 1) \<longrightarrow>
       Size (line_record fs) = (if minus_sign (fs ! 1) then 0 else - 1024)"
    "out_of_range (fs ! 2) \<longrightarrow>
       Used (line_record fs) = (if minus_sign (fs ! 2) then 0 else - 1024)"
    "out_of_range (fs ! 3) \<longrightarrow>
       Available (line_record fs) = (if minus_sign (fs ! 3) then 0 else - 1024)"
    using syn ran by (simp_all add: line_record_def)
  have pm: "malformed pct \<longrightarrow> UsePercent (line_record fs) = 0"
    by (simp add: line_record_def Atoi_def assms(4) [symmetric] ParseInt_token)
  have "out_of_range pct \<longrightarrow> \<not> malformed pct"
    using malformed_not_out_of_range by blast
  then have pr: "out_of_range pct \<longrightarrow>
      UsePercent (line_record fs) = (if minus_sign pct then - (2 ^ 63) else 2 ^ 63 - 1)"
    by (simp add: line_record_def Atoi_def assms(4) [symmetric] ParseInt_token)
  have e1: "(snd (ParseInt t) = Some ErrSyntax) = malformed t"
    using malformed_not_out_of_range [of t] by (auto simp: ParseInt_token)
  have e2: "(snd (ParseInt t) = Some ErrRange) = out_of_range t"
    using malformed_not_out_of_range [of t] by (auto simp: ParseInt_token)
  have e3: "(snd (Atoi t) \<noteq> None) = (malformed t \<or> out_of_range t)"
    by (auto simp: Atoi_def ParseInt_token)
  from rec sizes pm pr e1 e2 e3 show ?thesis by blast
qed

theorem numeric_failure_fields_witness:
  "\<exists>di. parseLine garbled_row = Some di
     \<and> Size di = 0 \<and> Used di = - 1024 \<and> Available di = 0 \<and> UsePercent di = 0"
proof -
  have a: "HasPrefix (TrimSpace garbled_row) ''/'' \<or> HasPrefix (TrimSpace garbled_row) ''tmpfs''
      \<or> HasPrefix (TrimSpace garbled_row) ''devtmpfs''"
    by code_simp
  have b: "6 \<le> length (splitDfLine (TrimSpace garbled_row))"
    by code_simp
  have c: "[''/dev/sda1'', ''1K-blocks'', ''99999999999999999999abc'',
        ''-99999999999999999999'', ''n/a'', ''/'']
      = splitDfLine (TrimSpace garbled_row)"
    by code_simp
  have d: "''n/a''
      = TrimSuffix ([''/dev/sda1'', ''1K-blocks'', ''99999999999999999999abc'',
          ''-99999999999999999999'', ''n/a'', ''/''] ! 4) ''%''"
    by code_simp
  have m: "malformed ''1K-blocks''" "malformed ''n/a''"
    by code_simp+
  have r: "out_of_range ''99999999999999999999abc''" "\<not> minus_sign ''99999999999999999999abc''"
    "out_of_range ''-99999999999999999999''" "minus_sign ''-99999999999999999999''"
    by code_simp+
  show ?thesis
    using numeric_failure_fields [OF a b c d, where t = "[]"] m r by auto
qed

text \<open>
  The claim as the specification states it fails on a field above the 64-bit range: the
  field fails to parse and the record holds -1024, not 0. The same happens when bytes
  that are no digits follow such a number.
\<close>

theorem numeric_failure_counterexample:
  "ParseInt ''99999999999999999999'' = (9223372036854775807, Some ErrRange)
   \<and> parseLine ''/dev/sda1 99999999999999999999 524288 524288 50% /''
     = Some \<lparr> Filesystem = ''/dev/sda1'', Size = - 1024, Used = 536870912,
              Available = 536870912, UsePercent = 50, MountPoint = ''/'' \<rparr>
   \<and> ParseInt ''99999999999999999999abc'' = (9223372036854775807, Some ErrRange)
   \<and> parseLine ''/dev/sda1 99999999999999999999abc 524288 524288 50% /''
     = Some \<lparr> Filesystem = ''/dev/sda1'', Size = - 1024, Used = 536870912,
              Available = 536870912, UsePercent = 50, MountPoint = ''/'' \<rparr>"
proof -
  have a: "ParseInt ''99999999999999999999'' = (9223372036854775807, Some ErrRange)"
    by code_simp
  have b: "parseLine ''/dev/sda1 99999999999999999999 524288 524288 50% /''
     = Some \<lparr> Filesystem = ''/dev/sda1'', Size = - 1024, Used = 536870912,
              Available = 536870912, UsePercent = 50, MountPoint = ''/'' \<rparr>"
    by code_simp
  have c: "ParseInt ''99999999999999999999abc'' = (9223372036854775807, Some ErrRange)"
    by code_simp
  have d: "parseLine ''/dev/sda1 99999999999999999999abc 524288 524288 50% /''
     = Some \<lparr> Filesystem = ''/dev/sda1'', Size = - 1024, Used = 536870912,
              Available = 536870912, UsePercent = 50, MountPoint = ''/'' \<rparr>"
    by code_simp
  from a b c d show ?thesis by blast
qed

section \<open>Properties of the formatter\<close>

lemma digit_char_is_digit: "0 \<le> d \<Longrightarrow> d < 10 \<Longrightarrow> is_digit (digit_char d)"
proof -
  assume "0 \<le> d" "d < 10"
  then have "nat d < length ''0123456789''" by simp
  then have "''0123456789'' ! nat d \<in> set ''0123456789''" by (rule nth_mem)
  then show ?thesis by (simp only: is_digit_def digit_char_def)
qed

lemma show_digits_shape:
  "0 \<le> n \<Longrightarrow> show_digits n \<noteq> [] \<and> list_all is_digit (show_digits n)"
proof (induction n rule: show_digits.induct)
  case (1 n)
  show ?case
  proof (cases "n < 10")
    case True
    then show ?thesis
      using "1.prems" digit_char_is_digit [of n] by (simp add: show_digits.simps [of n])
  next
    case False
    then have "0 \<le> n div 10" using "1.prems" by simp
    then have "list_all is_digit (show_digits (n div 10))"
      using "1.IH" False by simp
    moreover have "is_digit (digit_char (n mod 10))"
      by (rule digit_char_is_digit) simp_all
    ultimately show ?thesis
      using False by (simp add: show_digits.simps [of n])
  qed
qed

lemma div_round_even_nonneg: "0 \<le> n \<Longrightarrow> 0 < d \<Longrightarrow> 0 \<le> div_round_even n d"
  by (simp add: div_round_even_def Let_def pos_imp_zdiv_nonneg_iff)

lemma hundredths_shape:
  assumes "0 \<le> h"
  shows "two_decimals (hundredths h)"
proof -
  have ip: "show_digits (h div 100) \<noteq> [] \<and> list_all is_digit (show_digits (h div 100))"
    using assms by (intro show_digits_shape) simp
  have d1: "is_digit (digit_char (h mod 100 div 10))"
    by (rule digit_char_is_digit) (simp_all add: pos_imp_zdiv_nonneg_iff)
  have d2: "is_digit (digit_char (h mod 10))"
    by (rule digit_char_is_digit) simp_all
  show ?thesis
    using ip d1 d2 by (simp add: two_decimals_def hundredths_def)
qed

lemma Sprintf_2f_shape:
  assumes "0 \<le> m"
  shows "two_decimals (Sprintf_2f (m, e))"
proof -
  have "0 \<le> div_round_even (\<bar>m\<bar> * 100 * 2 ^ nat e) (2 ^ nat (- e))"
    by (rule div_round_even_nonneg) simp_all
  then show ?thesis
    using assms by (simp add: hundredths_shape)
qed

lemma float64_round_nonneg:
  assumes "0 \<le> n" "0 < d"
  shows "0 \<le> fst (float64_round n d e)"
proof (cases "n = 0")
  case True
  then show ?thesis by (simp add: float64_round_def)
next
  case False
  define s0 where "s0 = nbits \<bar>n\<bar> - nbits d - 53"
  define s where "s = (if \<bar>n\<bar> * 2 ^ nat (- s0) \<ge> d * 2 ^ nat s0 * 2 ^ 53 then s0 + 1 else s0)"
  have q: "0 \<le> div_round_even (\<bar>n\<bar> * 2 ^ nat (- s)) (d * 2 ^ nat s)"
    by (rule div_round_even_nonneg) (use assms in simp_all)
  have "fst (float64_round n d e) = sgn n * div_round_even (\<bar>n\<bar> * 2 ^ nat (- s)) (d * 2 ^ nat s)"
    using False by (simp add: float64_round_def Let_def s_def s0_def)
  then show ?thesis
    using q assms(1) by (simp add: sgn_if)
qed

lemma float64_of_int_nonneg: "0 \<le> n \<Longrightarrow> 0 \<le> fst (float64_of_int n)"
  by (simp add: float64_of_int_def float64_round_nonneg)

lemma float64_div_nonneg:
  assumes "0 \<le> fst x" "0 < fst y"
  shows "0 \<le> fst (float64_div x y)"
proof -
  obtain m1 e1 m2 e2 where xy: "x = (m1, e1)" "y = (m2, e2)"
    by (cases x, cases y) blast
  with assms have "0 \<le> sgn m2 * m1" "0 < \<bar>m2\<bar>" by simp_all
  then show ?thesis
    unfolding xy float64_div.simps by (rule float64_round_nonneg)
qed

lemma unit_floats_positive:
  "0 < fst (float64_of_int KB)" "0 < fst (float64_of_int MB)"
  "0 < fst (float64_of_int GB)" "0 < fst (float64_of_int TB)"
  by code_simp+

lemma formatSize_quotient_shape:
  assumes "0 \<le> b" "0 < fst (float64_of_int u)"
  shows "two_decimals (Sprintf_2f (float64_div (float64_of_int b) (float64_of_int u)))"
proof -
  have "0 \<le> fst (float64_div (float64_of_int b) (float64_of_int u))"
    using assms by (intro float64_div_nonneg float64_of_int_nonneg)
  then show ?thesis
    using Sprintf_2f_shape [of "fst (float64_div (float64_of_int b) (float64_of_int u))"
        "snd (float64_div (float64_of_int b) (float64_of_int u))"]
    by simp
qed

lemma unit_values: "KB = 1024" "MB = 1024 ^ 2" "GB = 1024 ^ 3" "TB = 1024 ^ 4"
  by (simp_all add: KB_def MB_def GB_def TB_def)

lemma nbits_pos: "0 < n \<Longrightarrow> 0 < nbits n"
proof (induction n rule: nbits.induct)
  case (1 n)
  show ?case
  proof (cases "n div 2 \<le> 0")
    case True
    then have "nbits (n div 2) = 0" by (simp add: nbits.simps [of "n div 2"])
    then show ?thesis using "1.prems" by (simp add: nbits.simps [of n])
  next
    case False
    then have "0 < nbits (n div 2)" using "1.IH" "1.prems" by simp
    then show ?thesis using "1.prems" by (simp add: nbits.simps [of n])
  qed
qed

lemma nbits_bounds:
  "0 < n \<Longrightarrow> 2 ^ nat (nbits n - 1) \<le> n \<and> n < 2 ^ nat (nbits n)"
proof (induction n rule: nbits.induct)
  case (1 n)
  show ?case
  proof (cases "n = 1")
    case True
    have "nbits 1 = 1" by code_simp
    then show ?thesis using True by simp
  next
    case False
    with "1.prems" have half: "0 < n div 2" by simp
    define k where "k = nbits (n div 2)"
    have k: "0 < k" unfolding k_def using half by (rule nbits_pos)
    have IH: "2 ^ nat (k - 1) \<le> n div 2" "n div 2 < 2 ^ nat k"
      using "1.IH" "1.prems" half by (simp_all add: k_def)
    have n: "nbits n = k + 1"
      using "1.prems" by (simp add: nbits.simps [of n] k_def)
    have e: "nat k = Suc (nat (k - 1))" using k by simp
    have "2 * 2 ^ nat (k - 1) \<le> n" using IH(1) by simp
    then have lo: "2 ^ nat k \<le> n" by (simp add: e)
    have "n < 2 * 2 ^ nat k" using IH(2) by simp
    then have hi: "n < 2 ^ nat (k + 1)" using k by (simp add: nat_add_distrib)
    show ?thesis using lo hi by (simp add: n)
  qed
qed

lemma nbits_eq:
  assumes "2 ^ j \<le> n" "n < 2 ^ Suc j"
  shows "nbits n = int (Suc j)"
proof -
  have "(0::int) < 2 ^ j" by simp
  then have pos: "0 < n" using assms(1) by linarith
  note b = nbits_bounds [OF pos]
  have k: "0 < nbits n" using pos by (rule nbits_pos)
  have "(2::int) ^ nat (nbits n - 1) < 2 ^ Suc j" using b assms(2) by linarith
  then have "nat (nbits n - 1) < Suc j" by (simp only: power_strict_increasing_iff one_less_numeral_iff semiring_norm)
  moreover have "(2::int) ^ j < 2 ^ nat (nbits n)" using b assms(1) by linarith
  then have "j < nat (nbits n)" by (simp only: power_strict_increasing_iff one_less_numeral_iff semiring_norm)
  ultimately show ?thesis using k by linarith
qed

lemma div_round_even_one: "div_round_even n 1 = n"
  by (simp add: div_round_even_def)

lemma div_round_even_scale:
  assumes "0 < c"
  shows "div_round_even (n * c) (d * c) = div_round_even n d"
proof -
  have q: "(n * c) div (d * c) = n div d" using assms by simp
  have r: "(n * c) mod (d * c) = (n mod d) * c" using assms by simp
  have "2 * (n mod d * c) = (2 * (n mod d)) * c" by simp
  then show ?thesis
    using assms unfolding div_round_even_def Let_def q r
    by (simp only: mult_less_cancel_right_pos mult_cancel_right) (simp add: less_le)
qed

lemma float64_of_int_exact:
  assumes "2 ^ j \<le> n" "n < 2 ^ Suc j" "j < 53"
  shows "float64_of_int n = (n * 2 ^ (52 - j), int j - 52)"
proof -
  have "(0::int) < 2 ^ j" by simp
  then have pos: "0 < n" using assms(1) by linarith
  have k: "nbits n = int (Suc j)" using assms(1,2) by (rule nbits_eq)
  have one: "nbits 1 = 1" by code_simp
  define s0 where "s0 = nbits \<bar>n\<bar> - nbits 1 - 53"
  have s0: "s0 = int j - 53" using pos by (simp add: s0_def k one)
  have e0: "nat (- s0) = 53 - j" "nat s0 = 0" using assms(3) by (simp_all add: s0)
  have "(2::int) ^ j * 2 ^ (53 - j) = 2 ^ 53"
    using assms(3) by (simp add: power_add [symmetric])
  moreover have "2 ^ j * 2 ^ (53 - j) \<le> n * (2::int) ^ (53 - j)"
    using assms(1) by simp
  ultimately have cond: "1 * 2 ^ nat s0 * 2 ^ 53 \<le> \<bar>n\<bar> * (2::int) ^ nat (- s0)"
    using pos by (simp add: e0)
  have e1: "nat (52 - int j) = 52 - j" "nat (int j - 52) = 0" using assms(3) by simp_all
  have "float64_round n 1 0
      = (sgn n * div_round_even (\<bar>n\<bar> * 2 ^ nat (- (s0 + 1))) (1 * 2 ^ nat (s0 + 1)), s0 + 1 + 0)"
    using pos cond unfolding float64_round_def Let_def s0_def [symmetric] by simp
  then show ?thesis
    using pos by (simp add: float64_of_int_def e1 div_round_even_one s0)
qed

lemma float64_div_pow2:
  assumes "2 ^ 52 \<le> m" "m < 2 ^ 53"
  shows "float64_div (m, e) (2 ^ 52, e2) = (m, e - e2 - 52)"
proof -
  have pos: "0 < m" using assms(1) by simp
  have km: "nbits m = 53" using nbits_eq [of 52 m] assms by simp
  have kd: "nbits (2 ^ 52) = 53" "nbits 4503599627370496 = 53" by code_simp+
  define s0 where "s0 = nbits \<bar>m\<bar> - nbits (2 ^ 52) - 53"
  have s0: "s0 = - 53" using pos by (simp add: s0_def km kd)
  have cond: "2 ^ 52 * 2 ^ nat s0 * 2 ^ 53 \<le> \<bar>m\<bar> * (2::int) ^ nat (- s0)"
    using assms(1) pos by (simp add: s0)
  have q: "div_round_even (m * 2 ^ 52) (2 ^ 52) = m"
    using div_round_even_scale [of "2 ^ 52" m 1] by (simp add: div_round_even_one)
  have "float64_round m (2 ^ 52) (e - e2)
      = (sgn m * div_round_even (\<bar>m\<bar> * 2 ^ nat (- (s0 + 1))) (2 ^ 52 * 2 ^ nat (s0 + 1)),
         s0 + 1 + (e - e2))"
    using pos cond unfolding float64_round_def Let_def s0_def [symmetric] by simp
  then have "float64_round m (2 ^ 52) (e - e2) = (m, e - e2 - 52)"
    using pos q by (simp add: s0)
  then show ?thesis by simp
qed

text \<open>
  For a count below \<open>2^53\<close> the conversion and the division by a power of two are exact,
  so \<^verbatim>\<open>%.2f\<close> rounds the exact quotient.
\<close>

lemma Sprintf_2f_quotient:
  assumes "2 ^ j \<le> n" "n < 2 ^ Suc j" "j < 53" "i \<le> j"
    and u: "float64_of_int (2 ^ i) = (2 ^ 52, int i - 52)"
  shows "Sprintf_2f (float64_div (float64_of_int n) (float64_of_int (2 ^ i)))
       = hundredths (div_round_even (n * 100) (2 ^ i))"
proof -
  have "(0::int) < 2 ^ j" by simp
  then have pos: "0 < n" using assms(1) by linarith
  define m where "m = n * 2 ^ (52 - j)"
  have "(2::int) ^ j * 2 ^ (52 - j) = 2 ^ 52"
    using assms(3) by (simp add: power_add [symmetric])
  moreover have "2 ^ j * 2 ^ (52 - j) \<le> n * (2::int) ^ (52 - j)"
    using assms(1) by simp
  ultimately have lo: "2 ^ 52 \<le> m" by (simp add: m_def)
  have "(2::int) ^ Suc j * 2 ^ (52 - j) = 2 ^ 53"
    using assms(3) by (simp add: power_add [symmetric] del: power_Suc)
  moreover have "n * (2::int) ^ (52 - j) < 2 ^ Suc j * 2 ^ (52 - j)"
    using assms(2) by simp
  ultimately have hi: "m < 2 ^ 53" by (simp add: m_def del: power_Suc)
  have mpos: "0 < m" using lo by simp
  have conv: "float64_of_int n = (m, int j - 52)"
    unfolding m_def using assms(1,2,3) by (rule float64_of_int_exact)
  define E where "E = int j - 52 - (int i - 52) - 52"
  have quot: "float64_div (float64_of_int n) (float64_of_int (2 ^ i)) = (m, E)"
    unfolding conv u E_def using lo hi by (rule float64_div_pow2)
  have ex: "nat E = 0" "nat (- E) = 52 - j + i"
    unfolding E_def using assms(3,4) by simp_all
  have print: "Sprintf_2f (m, E) = hundredths (div_round_even (m * 100) (2 ^ (52 - j + i)))"
    using mpos by (simp add: ex)
  have scale: "div_round_even (n * 100 * 2 ^ (52 - j)) (2 ^ i * 2 ^ (52 - j))
      = div_round_even (n * 100) (2 ^ i)"
    by (rule div_round_even_scale) simp
  have m100: "m * 100 = n * 100 * 2 ^ (52 - j)" by (simp add: m_def)
  have p2: "(2::int) ^ (52 - j + i) = 2 ^ i * 2 ^ (52 - j)"
    by (simp add: power_add)
  have "div_round_even (m * 100) (2 ^ (52 - j + i)) = div_round_even (n * 100) (2 ^ i)"
    unfolding m100 p2 by (rule scale)
  then show ?thesis
    by (simp only: quot print)
qed

lemma Sprintf_2f_exact:
  assumes "2 ^ i \<le> b" "b < 2 ^ 53"
    and u: "float64_of_int (2 ^ i) = (2 ^ 52, int i - 52)"
  shows "Sprintf_2f (float64_div (float64_of_int b) (float64_of_int (2 ^ i)))
       = hundredths (div_round_even (b * 100) (2 ^ i))"
proof -
  have "(0::int) < 2 ^ i" by simp
  then have pos: "0 < b" using assms(1) by linarith
  define j where "j = nat (nbits b - 1)"
  have k: "0 < nbits b" using pos by (rule nbits_pos)
  then have suc: "nat (nbits b) = Suc j" by (simp add: j_def)
  have lo: "2 ^ j \<le> b" and hi: "b < 2 ^ Suc j"
    using nbits_bounds [OF pos] by (simp_all only: j_def [symmetric] suc)
  have "(2::int) ^ j < 2 ^ 53" using lo assms(2) by linarith
  then have j53: "j < 53"
    by (simp only: power_strict_increasing_iff one_less_numeral_iff semiring_norm)
  have "(2::int) ^ i < 2 ^ Suc j" using hi assms(1) by linarith
  then have "i < Suc j"
    by (simp only: power_strict_increasing_iff one_less_numeral_iff semiring_norm)
  then have ij: "i \<le> j" by simp
  show ?thesis
    using lo hi j53 ij u by (rule Sprintf_2f_quotient)
qed

lemma unit_floats:
  "float64_of_int (2 ^ 10) = (2 ^ 52, int 10 - 52)"
  "float64_of_int (2 ^ 20) = (2 ^ 52, int 20 - 52)"
  "float64_of_int (2 ^ 30) = (2 ^ 52, int 30 - 52)"
  "float64_of_int (2 ^ 40) = (2 ^ 52, int 40 - 52)"
  by code_simp+

lemma formatSize_exact:
  assumes "b < 2 ^ 53"
  shows "1024 \<le> b \<Longrightarrow> b < 1024 ^ 2 \<Longrightarrow>
           formatSize b = hundredths (div_round_even (b * 100) 1024) @ '' KB''"
    and "1024 ^ 2 \<le> b \<Longrightarrow> b < 1024 ^ 3 \<Longrightarrow>
           formatSize b = hundredths (div_round_even (b * 100) (1024 ^ 2)) @ '' MB''"
    and "1024 ^ 3 \<le> b \<Longrightarrow> b < 1024 ^ 4 \<Longrightarrow>
           formatSize b = hundredths (div_round_even (b * 100) (1024 ^ 3)) @ '' GB''"
    and "1024 ^ 4 \<le> b \<Longrightarrow>
           formatSize b = hundredths (div_round_even (b * 100) (1024 ^ 4)) @ '' TB''"
proof -
  show "formatSize b = hundredths (div_round_even (b * 100) 1024) @ '' KB''"
    if "1024 \<le> b" "b < 1024 ^ 2"
    using Sprintf_2f_exact [of 10 b, OF _ assms unit_floats(1)] that
    by (simp add: formatSize_def unit_values)
  show "formatSize b = hundredths (div_round_even (b * 100) (1024 ^ 2)) @ '' MB''"
    if "1024 ^ 2 \<le> b" "b < 1024 ^ 3"
    using Sprintf_2f_exact [of 20 b, OF _ assms unit_floats(2)] that
    by (simp add: formatSize_def unit_values)
  show "formatSize b = hundredths (div_round_even (b * 100) (1024 ^ 3)) @ '' GB''"
    if "1024 ^ 3 \<le> b" "b < 1024 ^ 4"
    using Sprintf_2f_exact [of 30 b, OF _ assms unit_floats(3)] that
    by (simp add: formatSize_def unit_values)
  show "formatSize b = hundredths (div_round_even (b * 100) (1024 ^ 4)) @ '' TB''"
    if "1024 ^ 4 \<le> b"
    using Sprintf_2f_exact [of 40 b, OF _ assms unit_floats(4)] that
    by (simp add: formatSize_def unit_values)
qed

lemma div_round_even_nearest:
  assumes "0 < d"
  shows "2 * \<bar>n - d * div_round_even n d\<bar> \<le> d"
proof -
  define q where "q = n div d"
  define r where "r = n mod d"
  have n: "n = d * q + r" by (simp add: q_def r_def)
  have r: "0 \<le> r" "r < d" using assms by (simp_all add: r_def)
  show ?thesis
  proof (cases "2 * r > d \<or> (2 * r = d \<and> odd q)")
    case True
    then have "div_round_even n d = q + 1"
      by (simp add: div_round_even_def Let_def q_def r_def)
    then have "n - d * div_round_even n d = r - d"
      using n by (simp add: algebra_simps)
    then show ?thesis using True r by auto
  next
    case False
    then have "div_round_even n d = q"
      by (simp add: div_round_even_def Let_def q_def r_def)
    then have "n - d * div_round_even n d = r"
      using n by simp
    then show ?thesis using False r by auto
  qed
qed

text \<open>
  C2. For a byte count that is not negative, \<^verbatim>\<open>formatSize\<close> picks the largest unit
  whose threshold (a power of 1024) the count reaches: below 1024 it prints the count as
  a bare integer followed by \<^verbatim>\<open>" B"\<close>; from 1024, 1024 squared, 1024 cubed and 1024 to
  the fourth on it prints a numeral with exactly two decimals followed by \<^verbatim>\<open>" KB"\<close>,
  \<^verbatim>\<open>" MB"\<close>, \<^verbatim>\<open>" GB"\<close> and \<^verbatim>\<open>" TB"\<close>. Below \<open>2^53\<close>, where the conversion to
  \<^verbatim>\<open>float64\<close> is exact, the numeral is the count divided by the threshold and rounded
  to the nearest hundredth, ties to even. In particular 0 gives \<^verbatim>\<open>0 B\<close>, 1024 gives
  \<^verbatim>\<open>1.00 KB\<close>, 1048576 gives \<^verbatim>\<open>1.00 MB\<close> and 1099511627776 gives \<^verbatim>\<open>1.00 TB\<close>.
\<close>

theorem formatSize_units:
  assumes "0 \<le> b"
  shows "(b < 1024 \<longrightarrow>
            formatSize b = show_digits b @ '' B'' \<and> list_all is_digit (show_digits b))
       \<and> (1024 \<le> b \<and> b < 1024 ^ 2 \<longrightarrow>
            (\<exists>v. formatSize b = v @ '' KB'' \<and> two_decimals v)
            \<and> formatSize b = hundredths (div_round_even (b * 100) 1024) @ '' KB'')
       \<and> (1024 ^ 2 \<le> b \<and> b < 1024 ^ 3 \<longrightarrow>
            (\<exists>v. formatSize b = v @ '' MB'' \<and> two_decimals v)
            \<and> formatSize b = hundredths (div_round_even (b * 100) (1024 ^ 2)) @ '' MB'')
       \<and> (1024 ^ 3 \<le> b \<and> b < 1024 ^ 4 \<longrightarrow>
            (\<exists>v. formatSize b = v @ '' GB'' \<and> two_decimals v)
            \<and> formatSize b = hundredths (div_round_even (b * 100) (1024 ^ 3)) @ '' GB'')
       \<and> (1024 ^ 4 \<le> b \<longrightarrow>
            (\<exists>v. formatSize b = v @ '' TB'' \<and> two_decimals v)
            \<and> (b < 2 ^ 53 \<longrightarrow>
                 formatSize b = hundredths (div_round_even (b * 100) (1024 ^ 4)) @ '' TB''))
       \<and> (0 < d \<longrightarrow> 2 * \<bar>n - d * div_round_even n d\<bar> \<le> d)
       \<and> formatSize 0 = ''0 B''
       \<and> formatSize 1024 = ''1.00 KB''
       \<and> formatSize 1048576 = ''1.00 MB''
       \<and> formatSize 1099511627776 = ''1.00 TB''"
proof -
  have bytes: "b < 1024 \<longrightarrow>
      formatSize b = show_digits b @ '' B'' \<and> list_all is_digit (show_digits b)"
    using assms show_digits_shape [of b]
    by (simp add: formatSize_def unit_values Sprintf_d_def)
  have kb: "1024 \<le> b \<and> b < 1024 ^ 2 \<longrightarrow> (\<exists>v. formatSize b = v @ '' KB'' \<and> two_decimals v)"
    using formatSize_quotient_shape [OF assms unit_floats_positive(1)]
    by (simp add: formatSize_def unit_values)
  have mb: "1024 ^ 2 \<le> b \<and> b < 1024 ^ 3 \<longrightarrow> (\<exists>v. formatSize b = v @ '' MB'' \<and> two_decimals v)"
    using formatSize_quotient_shape [OF assms unit_floats_positive(2)]
    by (simp add: formatSize_def unit_values)
  have gb: "1024 ^ 3 \<le> b \<and> b < 1024 ^ 4 \<longrightarrow> (\<exists>v. formatSize b = v @ '' GB'' \<and> two_decimals v)"
    using formatSize_quotient_shape [OF assms unit_floats_positive(3)]
    by (simp add: formatSize_def unit_values)
  have tb: "1024 ^ 4 \<le> b \<longrightarrow> (\<exists>v. formatSize b = v @ '' TB'' \<and> two_decimals v)"
    using formatSize_quotient_shape [OF assms unit_floats_positive(4)]
    by (simp add: formatSize_def unit_values)
  have kbv: "1024 \<le> b \<and> b < 1024 ^ 2 \<longrightarrow>
      formatSize b = hundredths (div_round_even (b * 100) 1024) @ '' KB''"
    using formatSize_exact(1) [of b] by simp
  have mbv: "1024 ^ 2 \<le> b \<and> b < 1024 ^ 3 \<longrightarrow>
      formatSize b = hundredths (div_round_even (b * 100) (1024 ^ 2)) @ '' MB''"
    using formatSize_exact(2) [of b] by simp
  have gbv: "1024 ^ 3 \<le> b \<and> b < 1024 ^ 4 \<longrightarrow>
      formatSize b = hundredths (div_round_even (b * 100) (1024 ^ 3)) @ '' GB''"
    using formatSize_exact(3) [of b] by simp
  have tbv: "1024 ^ 4 \<le> b \<longrightarrow> b < 2 ^ 53 \<longrightarrow>
      formatSize b = hundredths (div_round_even (b * 100) (1024 ^ 4)) @ '' TB''"
    using formatSize_exact(4) [of b] by simp
  have e0: "formatSize 0 = ''0 B''" by code_simp
  have e1: "formatSize 1024 = ''1.00 KB''" by code_simp
  have e2: "formatSize 1048576 = ''1.00 MB''" by code_simp
  have e3: "formatSize 1099511627776 = ''1.00 TB''" by code_simp
  have near: "0 < d \<longrightarrow> 2 * \<bar>n - d * div_round_even n d\<bar> \<le> d"
    by (simp add: div_round_even_nearest)
  from bytes kb mb gb tb kbv mbv gbv tbv near e0 e1 e2 e3 show ?thesis by blast
qed

theorem formatSize_units_witness:
  "(\<exists>v. formatSize 1536 = v @ '' KB'' \<and> two_decimals v)
   \<and> formatSize 1536 = hundredths (div_round_even (1536 * 100) 1024) @ '' KB''
   \<and> formatSize 1536 = ''1.50 KB'' \<and> two_decimals ''1.50''
   \<and> formatSize 1152 = ''1.12 KB''"
proof -
  have nonneg: "(0::int) \<le> 1536" by simp
  have range: "1024 \<le> (1536::int) \<and> (1536::int) < 1024 ^ 2" by simp
  have "(\<exists>v. formatSize 1536 = v @ '' KB'' \<and> two_decimals v)
      \<and> formatSize 1536 = hundredths (div_round_even (1536 * 100) 1024) @ '' KB''"
    using formatSize_units [OF nonneg, where d = 1 and n = 0] range by blast
  moreover have "formatSize 1536 = ''1.50 KB''" by code_simp
  moreover have "two_decimals ''1.50''" by code_simp
  moreover have "formatSize 1152 = ''1.12 KB''" by code_simp
  ultimately show ?thesis by blast
qed

text \<open>
  C9. A negative count is below every threshold: \<^verbatim>\<open>formatSize\<close> prints it as a bare
  integer with its sign, followed by \<^verbatim>\<open>" B"\<close>, with no unit conversion and no decimals;
  -1 gives \<^verbatim>\<open>-1 B\<close>.
\<close>

theorem formatSize_negative:
  assumes "n < 0"
  shows "formatSize n = ''-'' @ show_digits (- n) @ '' B''
       \<and> list_all is_digit (show_digits (- n))"
  using assms show_digits_shape [of "- n"]
  by (simp add: formatSize_def unit_values Sprintf_d_def)

theorem formatSize_negative_witness:
  "formatSize (- 1) = ''-1 B'' \<and> formatSize (- 9223372036854775808) = ''-9223372036854775808 B''"
proof -
  have a: "show_digits 1 = ''1''" by code_simp
  have b: "show_digits 9223372036854775808 = ''9223372036854775808''" by code_simp
  have "(- 1 :: int) < 0" "(- 9223372036854775808 :: int) < 0" by simp_all
  from formatSize_negative [OF this(1)] formatSize_negative [OF this(2)] a b
  show ?thesis by simp
qed

section \<open>Properties of the display\<close>

lemma usedChars_table_0: "list_all (\<lambda>p. usedChars p = p * 30 div 100) [0..25]"
  by code_simp

lemma usedChars_table_1: "list_all (\<lambda>p. usedChars p = p * 30 div 100) [26..50]"
  by code_simp

lemma usedChars_table_2: "list_all (\<lambda>p. usedChars p = p * 30 div 100) [51..75]"
  by code_simp

lemma usedChars_table_3: "list_all (\<lambda>p. usedChars p = p * 30 div 100) [76..100]"
  by code_simp

lemma usedChars_percent:
  assumes "0 \<le> p" "p \<le> 100"
  shows "usedChars p = p * 30 div 100"
proof -
  note tables =
    usedChars_table_0 [unfolded list_all_iff set_upto]
    usedChars_table_1 [unfolded list_all_iff set_upto]
    usedChars_table_2 [unfolded list_all_iff set_upto]
    usedChars_table_3 [unfolded list_all_iff set_upto]
  consider "p \<in> {0..25}" | "p \<in> {26..50}" | "p \<in> {51..75}" | "p \<in> {76..100}"
    using assms by fastforce
  then show ?thesis
    using tables by cases blast+
qed

lemma usedChars_percent_range:
  assumes "0 \<le> p" "p \<le> 100"
  shows "0 \<le> usedChars p \<and> usedChars p \<le> 30"
proof -
  have "0 \<le> p * 30 div 100" using assms(1) by simp
  moreover have "p * 30 div 100 \<le> 30" using assms(2) by simp
  ultimately show ?thesis by (simp add: usedChars_percent [OF assms])
qed

text \<open>
  C3, as the code has it. For every percentage the count of available cells is 30 minus
  the count of used cells, and nothing is clamped. The count of used cells is the
  \<^verbatim>\<open>float64\<close> product \<^verbatim>\<open>p / 100 * 30\<close> with its fraction dropped, that is rounded
  towards zero. For every percentage from 0 to 100 it equals \<open>p * 30 div 100\<close>, the floor
  of the exact product, and the two counts add up to 30. For 150 the counts are 45 and
  -15, for -1 they are 0 and 30.
\<close>

theorem bar_cells:
  "availChars p = 30 - usedChars p
   \<and> (0 \<le> p \<and> p \<le> 100 \<longrightarrow>
        usedChars p = p * 30 div 100 \<and> usedChars p + availChars p = 30)
   \<and> usedChars 150 = 45 \<and> availChars 150 = - 15
   \<and> usedChars (- 1) = 0 \<and> availChars (- 1) = 30"
proof -
  have a: "availChars p = 30 - usedChars p"
    by (simp add: availChars_def barWidth_def)
  have b: "0 \<le> p \<and> p \<le> 100 \<longrightarrow>
      usedChars p = p * 30 div 100 \<and> usedChars p + availChars p = 30"
    using usedChars_percent [of p] a by simp
  have c: "usedChars 150 = 45" by code_simp
  have d: "availChars 150 = - 15" by code_simp
  have e: "usedChars (- 1) = 0" by code_simp
  have f: "availChars (- 1) = 30" by code_simp
  from a b c d e f show ?thesis by blast
qed

theorem bar_cells_witness:
  "usedChars 50 = 15 \<and> availChars 50 = 15"
  using bar_cells [of 50] by simp

text \<open>
  The claim as the specification states it, with the floor for every integer, fails for
  a negative percentage: for -1 the floor of -0.3 is -1 and the code computes 0.
\<close>

theorem bar_floor_counterexample:
  "usedChars (- 1) = 0 \<and> \<lfloor>(- 1 :: rat) / 100 * 30\<rfloor> = - 1
   \<and> usedChars (- 1) \<noteq> \<lfloor>(- 1 :: rat) / 100 * 30\<rfloor>"
proof -
  have a: "usedChars (- 1) = 0" by code_simp
  have b: "\<lfloor>(- 1 :: rat) / 100 * 30\<rfloor> = - 1" by (simp add: floor_eq_iff)
  from a b show ?thesis by simp
qed

subsection \<open>What View renders\<close>

lemma deviceInfo_percent:
  assumes "0 \<le> UsePercent di" "UsePercent di \<le> 100"
  shows "deviceInfo st di = Inr (block st di)"
proof -
  define u where "u = UsePercent di * 30 div 100"
  have u: "usedChars (UsePercent di) = u"
    unfolding u_def using assms by (rule usedChars_percent)
  have range: "0 \<le> u" "u \<le> 30"
    using usedChars_percent_range [OF assms] u by simp_all
  have used: "Repeat full_block (usedChars (UsePercent di))
      = Inr (concat (replicate (nat u) full_block))"
    using range by (simp add: Repeat_def u)
  have "nat (30 - u) = 30 - nat u"
    using range by simp
  then have avail: "Repeat light_shade (availChars (UsePercent di))
      = Inr (concat (replicate (30 - nat u) light_shade))"
    using range by (simp add: Repeat_def availChars_def barWidth_def u)
  have blk: "deviceInfo_text st di
        (usedStyle st (concat (replicate (nat u) full_block)))
        (availStyle st (concat (replicate (30 - nat u) light_shade)))
      = block st di"
    using assms(1) unfolding block_def u_def [symmetric]
    by (simp add: deviceInfo_text_def tee_def corner_def full_block_def light_shade_def
        newline_def Sprintf_d_def)
  show ?thesis
    by (simp add: deviceInfo_def used avail blk)
qed

lemma HasPrefix_dev: "HasPrefix s ''/dev'' \<Longrightarrow> HasPrefix s ''/''"
  by (cases s) (simp_all add: HasPrefix_def)

lemma View_loop_blocks:
  assumes "\<forall>di \<in> set dis. HasPrefix (Filesystem di) ''/''
             \<longrightarrow> 0 \<le> UsePercent di \<and> UsePercent di \<le> 100"
  shows "View_loop st dis sb
       = Inr (sb @ concat (map (block st)
                (filter (\<lambda>di. HasPrefix (Filesystem di) ''/'') dis)))"
  using assms
proof (induction dis arbitrary: sb)
  case Nil
  show ?case by simp
next
  case (Cons di dis)
  then have rest: "\<And>sb'. View_loop st dis sb'
      = Inr (sb' @ concat (map (block st)
               (filter (\<lambda>di. HasPrefix (Filesystem di) ''/'') dis)))"
    by simp
  show ?case
  proof (cases "HasPrefix (Filesystem di) ''/''")
    case True
    then have "deviceInfo st di = Inr (block st di)"
      using Cons.prems by (simp add: deviceInfo_percent)
    then show ?thesis
      using True rest [of "sb @ block st di"] by simp
  next
    case False
    then have "\<not> HasPrefix (Filesystem di) ''/dev''"
      using HasPrefix_dev by blast
    then show ?thesis
      using False rest [of sb] by simp
  qed
qed

lemma splitDfLine_from_first:
  "splitDfLine_from cur s ! 0 = cur @ takeWhile (\<lambda>c. \<not> re_space c) s"
  by (induction cur s rule: splitDfLine_from.induct) simp_all

lemma HasPrefix_takeWhile:
  assumes "HasPrefix s p" "\<forall>c \<in> set p. Q c"
  shows "HasPrefix (takeWhile Q s) p"
proof -
  from assms(1) have "s = p @ drop (length p) s"
    by (metis HasPrefix_def append_take_drop_id)
  then have "takeWhile Q s = p @ takeWhile Q (drop (length p) s)"
    using assms(2) by (metis takeWhile_append2)
  then show ?thesis by (simp add: HasPrefix_def)
qed

lemma first_field_prefix:
  assumes "HasPrefix line p" "\<forall>c \<in> set p. \<not> re_space c"
  shows "HasPrefix (splitDfLine line ! 0) p"
  using HasPrefix_takeWhile [OF assms]
  by (simp add: splitDfLine_def splitDfLine_from_first)

lemma parseLine_filesystem:
  assumes "parseLine l = Some di"
  shows "HasPrefix (Filesystem di) ''/'' \<or> HasPrefix (Filesystem di) ''tmpfs''
       \<or> HasPrefix (Filesystem di) ''devtmpfs''"
proof -
  define line where "line = TrimSpace l"
  have pre: "HasPrefix line ''/'' \<or> HasPrefix line ''tmpfs'' \<or> HasPrefix line ''devtmpfs''"
    using assms by (auto simp: parseLine_def Let_def line_def split: if_splits)
  have fs: "Filesystem di = splitDfLine line ! 0"
    using parseLine_SomeD [OF assms] by (simp add: line_record_def line_def)
  have "\<forall>c \<in> set ''/''. \<not> re_space c" "\<forall>c \<in> set ''tmpfs''. \<not> re_space c"
    "\<forall>c \<in> set ''devtmpfs''. \<not> re_space c"
    by (simp_all add: re_space_def)
  then show ?thesis
    using pre first_field_prefix [of line] unfolding fs by blast
qed

lemma parse_lines_from_lines:
  "di \<in> set (parse_lines ls []) \<Longrightarrow> \<exists>l \<in> set ls. parseLine l = Some di"
proof (induction ls)
  case Nil
  then show ?case by simp
next
  case (Cons l ls)
  show ?case
  proof (cases "parseLine l")
    case None
    then show ?thesis using Cons by simp
  next
    case (Some d)
    then have "parse_lines (l # ls) [] = d # parse_lines ls []"
      using parse_lines_acc [of ls "[d]"] by simp
    then show ?thesis using Cons Some by auto
  qed
qed

lemma parseDfOutput_filesystem:
  assumes "di \<in> set (parseDfOutput output)"
  shows "HasPrefix (Filesystem di) ''/'' \<or> HasPrefix (Filesystem di) ''tmpfs''
       \<or> HasPrefix (Filesystem di) ''devtmpfs''"
  using assms parse_lines_from_lines parseLine_filesystem
  unfolding parseDfOutput_def by blast

text \<open>
  C4, as the code has it. Every record the parser returns has a filesystem that begins
  with \<^verbatim>\<open>/\<close>, \<^verbatim>\<open>tmpfs\<close> or \<^verbatim>\<open>devtmpfs\<close>, and \<^verbatim>\<open>View\<close> renders a block only for
  a record whose filesystem begins with \<^verbatim>\<open>/\<close>: the records of \<^verbatim>\<open>tmpfs\<close> and
  \<^verbatim>\<open>devtmpfs\<close> are skipped. When the list is not empty, no error is set and every record
  that begins with \<^verbatim>\<open>/\<close> has a percentage from 0 to 100, the output is the blocks of
  those records, one for each, in their order. The block of a record is the text
  \<open>block\<close> writes out: the filesystem, then the lines \<^verbatim>\<open>Size:\<close>, \<^verbatim>\<open>Used:\<close>,
  \<^verbatim>\<open>Available:\<close>, \<^verbatim>\<open>Usage:\<close> and \<^verbatim>\<open>Mounted on:\<close> with the formatted sizes, the
  percentage and the mount point, then a bar of 30 cells in two segments.
\<close>

theorem View_blocks:
  assumes "err m = None" and "diskInfos m \<noteq> []"
    and "\<forall>di \<in> set (diskInfos m). HasPrefix (Filesystem di) ''/''
           \<longrightarrow> 0 \<le> UsePercent di \<and> UsePercent di \<le> 100"
  shows "View st m
       = Inr (concat (map (block st)
                (filter (\<lambda>di. HasPrefix (Filesystem di) ''/'') (diskInfos m))))
       \<and> (\<forall>di \<in> set (parseDfOutput output).
            HasPrefix (Filesystem di) ''/'' \<or> HasPrefix (Filesystem di) ''tmpfs''
            \<or> HasPrefix (Filesystem di) ''devtmpfs'')"
proof
  show "View st m
      = Inr (concat (map (block st)
               (filter (\<lambda>di. HasPrefix (Filesystem di) ''/'') (diskInfos m))))"
    using assms View_loop_blocks [of "diskInfos m" st "[]"]
    by (simp add: View_def)
  show "\<forall>di \<in> set (parseDfOutput output).
      HasPrefix (Filesystem di) ''/'' \<or> HasPrefix (Filesystem di) ''tmpfs''
      \<or> HasPrefix (Filesystem di) ''devtmpfs''"
    using parseDfOutput_filesystem by blast
qed

theorem View_blocks_witness:
  "View plain
     \<lparr> diskInfos = parseDfOutput (sample_header @ [newline] @ sample_row), err = None \<rparr>
   = Inr (''/dev/sda1'' @ [CHR 0x0A]
        @ [CHR 0xE2, CHR 0x94, CHR 0x9C, CHR 0xE2, CHR 0x94, CHR 0x80] @ '' Size: 1.00 GB'' @ [CHR 0x0A]
        @ [CHR 0xE2, CHR 0x94, CHR 0x9C, CHR 0xE2, CHR 0x94, CHR 0x80] @ '' Used: 512.00 MB'' @ [CHR 0x0A]
        @ [CHR 0xE2, CHR 0x94, CHR 0x9C, CHR 0xE2, CHR 0x94, CHR 0x80] @ '' Available: 512.00 MB'' @ [CHR 0x0A]
        @ [CHR 0xE2, CHR 0x94, CHR 0x9C, CHR 0xE2, CHR 0x94, CHR 0x80] @ '' Usage: 50%'' @ [CHR 0x0A]
        @ [CHR 0xE2, CHR 0x94, CHR 0x9C, CHR 0xE2, CHR 0x94, CHR 0x80] @ '' Mounted on: /'' @ [CHR 0x0A]
        @ [CHR 0xE2, CHR 0x94, CHR 0x94, CHR 0xE2, CHR 0x94, CHR 0x80] @ '' [''
        @ [CHR 0xE2, CHR 0x96, CHR 0x88, CHR 0xE2, CHR 0x96, CHR 0x88, CHR 0xE2, CHR 0x96, CHR 0x88,
          CHR 0xE2, CHR 0x96, CHR 0x88, CHR 0xE2, CHR 0x96, CHR 0x88, CHR 0xE2, CHR 0x96, CHR 0x88,
          CHR 0xE2, CHR 0x96, CHR 0x88, CHR 0xE2, CHR 0x96, CHR 0x88, CHR 0xE2, CHR 0x96, CHR 0x88,
          CHR 0xE2, CHR 0x96, CHR 0x88, CHR 0xE2, CHR 0x96, CHR 0x88, CHR 0xE2, CHR 0x96, CHR 0x88,
          CHR 0xE2, CHR 0x96, CHR 0x88, CHR 0xE2, CHR 0x96, CHR 0x88, CHR 0xE2, CHR 0x96, CHR 0x88]
        @ [CHR 0xE2, CHR 0x96, CHR 0x91, CHR 0xE2, CHR 0x96, CHR 0x91, CHR 0xE2, CHR 0x96, CHR 0x91,
          CHR 0xE2, CHR 0x96, CHR 0x91, CHR 0xE2, CHR 0x96, CHR 0x91, CHR 0xE2, CHR 0x96, CHR 0x91,
          CHR 0xE2, CHR 0x96, CHR 0x91, CHR 0xE2, CHR 0x96, CHR 0x91, CHR 0xE2, CHR 0x96, CHR 0x91,
          CHR 0xE2, CHR 0x96, CHR 0x91, CHR 0xE2, CHR 0x96, CHR 0x91, CHR 0xE2, CHR 0x96, CHR 0x91,
          CHR 0xE2, CHR 0x96, CHR 0x91, CHR 0xE2, CHR 0x96, CHR 0x91, CHR 0xE2, CHR 0x96, CHR 0x91]
        @ '']'' @ [CHR 0x0A, CHR 0x0A])"
proof -
  have p: "parseDfOutput (sample_header @ [newline] @ sample_row) = [sample_record]"
    by code_simp
  have e: "err \<lparr> diskInfos = [sample_record], err = None \<rparr> = None"
    and n: "diskInfos \<lparr> diskInfos = [sample_record], err = None \<rparr> \<noteq> []"
    by simp_all
  have f: "HasPrefix (Filesystem sample_record) ''/''" by code_simp
  have r: "0 \<le> UsePercent sample_record \<and> UsePercent sample_record \<le> 100" by code_simp
  then have a: "\<forall>di \<in> set (diskInfos \<lparr> diskInfos = [sample_record], err = None \<rparr>).
      HasPrefix (Filesystem di) ''/'' \<longrightarrow> 0 \<le> UsePercent di \<and> UsePercent di \<le> 100"
    by simp
  have lit: "block plain sample_record
      = ''/dev/sda1'' @ [CHR 0x0A]
        @ [CHR 0xE2, CHR 0x94, CHR 0x9C, CHR 0xE2, CHR 0x94, CHR 0x80] @ '' Size: 1.00 GB'' @ [CHR 0x0A]
        @ [CHR 0xE2, CHR 0x94, CHR 0x9C, CHR 0xE2, CHR 0x94, CHR 0x80] @ '' Used: 512.00 MB'' @ [CHR 0x0A]
        @ [CHR 0xE2, CHR 0x94, CHR 0x9C, CHR 0xE2, CHR 0x94, CHR 0x80] @ '' Available: 512.00 MB'' @ [CHR 0x0A]
        @ [CHR 0xE2, CHR 0x94, CHR 0x9C, CHR 0xE2, CHR 0x94, CHR 0x80] @ '' Usage: 50%'' @ [CHR 0x0A]
        @ [CHR 0xE2, CHR 0x94, CHR 0x9C, CHR 0xE2, CHR 0x94, CHR 0x80] @ '' Mounted on: /'' @ [CHR 0x0A]
        @ [CHR 0xE2, CHR 0x94, CHR 0x94, CHR 0xE2, CHR 0x94, CHR 0x80] @ '' [''
        @ [CHR 0xE2, CHR 0x96, CHR 0x88, CHR 0xE2, CHR 0x96, CHR 0x88, CHR 0xE2, CHR 0x96, CHR 0x88,
          CHR 0xE2, CHR 0x96, CHR 0x88, CHR 0xE2, CHR 0x96, CHR 0x88, CHR 0xE2, CHR 0x96, CHR 0x88,
          CHR 0xE2, CHR 0x96, CHR 0x88, CHR 0xE2, CHR 0x96, CHR 0x88, CHR 0xE2, CHR 0x96, CHR 0x88,
          CHR 0xE2, CHR 0x96, CHR 0x88, CHR 0xE2, CHR 0x96, CHR 0x88, CHR 0xE2, CHR 0x96, CHR 0x88,
          CHR 0xE2, CHR 0x96, CHR 0x88, CHR 0xE2, CHR 0x96, CHR 0x88, CHR 0xE2, CHR 0x96, CHR 0x88]
        @ [CHR 0xE2, CHR 0x96, CHR 0x91, CHR 0xE2, CHR 0x96, CHR 0x91, CHR 0xE2, CHR 0x96, CHR 0x91,
          CHR 0xE2, CHR 0x96, CHR 0x91, CHR 0xE2, CHR 0x96, CHR 0x91, CHR 0xE2, CHR 0x96, CHR 0x91,
          CHR 0xE2, CHR 0x96, CHR 0x91, CHR 0xE2, CHR 0x96, CHR 0x91, CHR 0xE2, CHR 0x96, CHR 0x91,
          CHR 0xE2, CHR 0x96, CHR 0x91, CHR 0xE2, CHR 0x96, CHR 0x91, CHR 0xE2, CHR 0x96, CHR 0x91,
          CHR 0xE2, CHR 0x96, CHR 0x91, CHR 0xE2, CHR 0x96, CHR 0x91, CHR 0xE2, CHR 0x96, CHR 0x91]
        @ '']'' @ [CHR 0x0A, CHR 0x0A]"
    by code_simp
  have "View plain \<lparr> diskInfos = [sample_record], err = None \<rparr>
      = Inr (concat (map (block plain)
          (filter (\<lambda>di. HasPrefix (Filesystem di) ''/'')
             (diskInfos \<lparr> diskInfos = [sample_record], err = None \<rparr>))))"
    using View_blocks [OF e n a] by (rule conjunct1)
  then have "View plain \<lparr> diskInfos = [sample_record], err = None \<rparr>
      = Inr (block plain sample_record)"
    using f by simp
  then show ?thesis
    unfolding p lit .
qed

text \<open>
  The claim as the specification states it fails on a \<^verbatim>\<open>tmpfs\<close> row: the parser returns
  its record and \<^verbatim>\<open>View\<close> renders nothing for it. It fails on a record with 150 percent
  too: the count of available cells is -15, and \<^verbatim>\<open>strings.Repeat\<close> panics.
\<close>

theorem View_tmpfs_counterexample:
  "map Filesystem (parseDfOutput (sample_header @ [newline] @ ''tmpfs 1024 0 1024 0% /run''))
     = [''tmpfs'']
   \<and> View plain
        \<lparr> diskInfos = parseDfOutput (sample_header @ [newline] @ ''tmpfs 1024 0 1024 0% /run''),
          err = None \<rparr>
     = Inr []
   \<and> View plain
        \<lparr> diskInfos = parseDfOutput (sample_header @ [newline]
            @ ''/dev/sda1 1048576 524288 524288 150% /''),
          err = None \<rparr>
     = Inl NegativeRepeatCount"
proof -
  have a: "map Filesystem
      (parseDfOutput (sample_header @ [newline] @ ''tmpfs 1024 0 1024 0% /run'')) = [''tmpfs'']"
    by code_simp
  have b: "View plain
        \<lparr> diskInfos = parseDfOutput (sample_header @ [newline] @ ''tmpfs 1024 0 1024 0% /run''),
          err = None \<rparr>
     = Inr []"
    by code_simp
  have c: "View plain
        \<lparr> diskInfos = parseDfOutput (sample_header @ [newline]
            @ ''/dev/sda1 1048576 524288 524288 150% /''),
          err = None \<rparr>
     = Inl NegativeRepeatCount"
    by code_simp
  from a b c show ?thesis by blast
qed

end
